theory Spec2Isabelle
  imports Main "HOL-Library.Word" "HOL-Library.Multiset"
begin

section \<open>Go values shared by the packages\<close>

text \<open>
  A Go \<open>error\<close> is modelled by the message it carries: \<open>fmt.Errorf\<close> and the errors of
  the collaborators (Redis, the agent service, the engine) are all values of this type.
  A function returning \<open>(T, error)\<close> with exactly one of the two set is a sum
  \<open>error + T\<close>; a function returning a bare \<open>error\<close> is an \<open>error option\<close>
  (\<open>None\<close> is Go's \<open>nil\<close>).
\<close>

datatype error = Errorf string | redis_Nil

text \<open>
  \<open>redis_Nil\<close> is the sentinel \<open>redis.Nil\<close> ("key does not exist"), which the limiter
  compares against by identity. Values of Go's \<open>any\<close> that the code stores or compares
  are the scalars below; \<open>int64\<close> is a 64-bit word read as a signed number.
\<close>

datatype any = AnyString string | AnyInt int | AnyBool bool

type_synonym int64 = "64 word"

text \<open>
  A Go call either returns or panics (a nil pointer dereference, an index out of range).
\<close>

datatype 'a outcome = Panics string | Returns 'a

section \<open>Executor registry (package execution)\<close>

text \<open>
  \<open>BlockExecutor\<close> is an interface; a registry is polymorphic in the type \<open>'e\<close> of the
  executors it holds. The three executors that \<open>NewExecutorRegistry\<close> installs are built
  by \<open>NewVariableExecutor\<close>, \<open>NewAgentBlockExecutor\<close> and \<open>NewToolExecutor\<close>, which are
  kept opaque: they are the constructors of a datatype, applied to the services they
  receive. The map of a registry is made by \<open>NewExecutorRegistry\<close>, its only constructor,
  so it is never the \<open>nil\<close> map, on which \<open>Register\<close> would panic.
\<close>

datatype ('cs, 'ps, 'tr, 'cr) BlockExecutor =
    NewVariableExecutor
  | NewAgentBlockExecutor 'cs 'ps 'tr 'cr
  | NewToolExecutor 'tr 'cr

record 'e ExecutorRegistry =
  executors :: "string \<rightharpoonup> 'e"

definition NewExecutorRegistry ::
  "'cs \<Rightarrow> 'ps \<Rightarrow> 'tr \<Rightarrow> 'cr \<Rightarrow> ('cs, 'ps, 'tr, 'cr) BlockExecutor ExecutorRegistry" where
  "NewExecutorRegistry chatService providerService toolRegistry credentialService =
     \<lparr>executors =
        [''variable'' \<mapsto> NewVariableExecutor,
         ''llm_inference'' \<mapsto>
            NewAgentBlockExecutor chatService providerService toolRegistry credentialService,
         ''code_block'' \<mapsto> NewToolExecutor toolRegistry credentialService]\<rparr>"

definition Get :: "'e ExecutorRegistry \<Rightarrow> string \<Rightarrow> error + 'e" where
  "Get r blockType =
     (case executors r blockType of
        None \<Rightarrow> Inl (Errorf (''no executor registered for block type: '' @ blockType))
      | Some exec \<Rightarrow> Inr exec)"

definition Register :: "'e ExecutorRegistry \<Rightarrow> string \<Rightarrow> 'e \<Rightarrow> 'e ExecutorRegistry" where
  "Register r blockType executor = r\<lparr>executors := (executors r)(blockType \<mapsto> executor)\<rparr>"

section \<open>Execution limiter (package middleware)\<close>

subsection \<open>Collaborators: tier service and Redis\<close>

text \<open>
  Of the tier service the limiter only calls
  \<open>GetLimits(ctx, userID).MaxExecutionsPerDay\<close>, so the service is the function from a user
  id to the limits of that user's tier; which limits a tier can have is left open.
\<close>

record TierLimits =
  MaxExecutionsPerDay :: int64

record TierService =
  GetLimits :: "string \<Rightarrow> TierLimits"

text \<open>
  The Redis client, as far as the limiter uses it: integer counters by key, the expiry put
  on a key, and \<open>fault\<close>, which is \<open>Some e\<close> when the server cannot be reached and every
  command fails with \<open>e\<close>.
\<close>

record RedisClient =
  counters :: "string \<rightharpoonup> int64"
  expiry :: "string \<rightharpoonup> int"
  fault :: "error option"

text \<open>\<open>rc.Get(ctx, key).Int64()\<close>: the value and \<open>nil\<close>, or zero and an error.\<close>

definition redis_Get_Int64 :: "RedisClient \<Rightarrow> string \<Rightarrow> int64 \<times> error option" where
  "redis_Get_Int64 rc key =
     (case fault rc of
        Some e \<Rightarrow> (0, Some e)
      | None \<Rightarrow>
          (case counters rc key of
             None \<Rightarrow> (0, Some redis_Nil)
           | Some n \<Rightarrow> (n, None)))"

text \<open>
  The pipeline \<open>Incr(key); Expire(key, d); Exec()\<close>. A missing key counts from zero;
  Redis refuses to increment the largest 64-bit value.
\<close>

definition redis_Incr_Expire_Exec ::
  "RedisClient \<Rightarrow> string \<Rightarrow> int \<Rightarrow> RedisClient \<times> error option" where
  "redis_Incr_Expire_Exec rc key d =
     (case fault rc of
        Some e \<Rightarrow> (rc, Some e)
      | None \<Rightarrow>
          (let n = (case counters rc key of None \<Rightarrow> 0 | Some n \<Rightarrow> n) in
           if n = 0x7FFFFFFFFFFFFFFF
           then (rc\<lparr>expiry := (expiry rc)(key \<mapsto> d)\<rparr>,
                 Some (Errorf ''ERR increment or decrement would overflow''))
           else (rc\<lparr>counters := (counters rc)(key \<mapsto> n + 1),
                    expiry := (expiry rc)(key \<mapsto> d)\<rparr>, None)))"

subsection \<open>The limiter\<close>

record ExecutionLimiter =
  tierService :: TierService
  redis :: "RedisClient option"

definition NewExecutionLimiter :: "TierService \<Rightarrow> RedisClient option \<Rightarrow> ExecutionLimiter" where
  "NewExecutionLimiter ts redisClient = \<lparr>tierService = ts, redis = redisClient\<rparr>"

text \<open>
  Readings of the clock are arguments: \<open>today\<close> is
  \<open>time.Now().UTC().Format("2006-01-02")\<close>, \<open>nextMidnight\<close> is \<open>getNextMidnightUTC()\<close>
  and \<open>untilMidnight\<close> is \<open>time.Until(midnight)\<close>, in nanoseconds.
\<close>

definition execution_key :: "string \<Rightarrow> string \<Rightarrow> string" where
  "execution_key userID today = ''executions:'' @ userID @ '':'' @ today"

text \<open>
  The part of a \<open>fiber.Ctx\<close> that \<open>CheckLimit\<close> touches: the locals. What the middleware
  answers is either \<open>c.Next()\<close> or a status code with a JSON body. A log line is the
  text of its format string, without the leading pictogram and without the arguments.
\<close>

record FiberCtx =
  locals :: "string \<rightharpoonup> any"

datatype json = JString string | JInt int64 | JTime int

datatype response = Next | StatusJSON nat "(string \<times> json) list"

definition CheckLimit ::
  "ExecutionLimiter \<Rightarrow> string \<Rightarrow> int \<Rightarrow> FiberCtx \<Rightarrow> (FiberCtx \<times> response \<times> string list) outcome" where
  "CheckLimit el today nextMidnight c =
     (case locals c ''user_id'' of
        None \<Rightarrow> Returns (c, StatusJSON 401 [(''error'', JString ''Unauthorized'')], [])
      | Some (AnyInt _) \<Rightarrow> Returns (c, StatusJSON 500 [(''error'', JString ''Invalid user ID'')], [])
      | Some (AnyBool _) \<Rightarrow> Returns (c, StatusJSON 500 [(''error'', JString ''Invalid user ID'')], [])
      | Some (AnyString userIDStr) \<Rightarrow>
          (let limits = GetLimits (tierService el) userIDStr in
           if MaxExecutionsPerDay limits = - 1 then Returns (c, Next, [])
           else
             (let key = execution_key userIDStr today in
              case redis el of
                None \<Rightarrow> Panics ''invalid memory address or nil pointer dereference''
              | Some rc \<Rightarrow>
                  (let (count, err) = redis_Get_Int64 rc key in
                   if err \<noteq> None \<and> err \<noteq> Some redis_Nil
                   then Returns (c, Next, [''Failed to get execution count from Redis: %v''])
                   else if MaxExecutionsPerDay limits \<le>s count
                   then Returns (c, StatusJSON 429
                          [(''error'', JString ''Daily execution limit exceeded''),
                           (''limit'', JInt (MaxExecutionsPerDay limits)),
                           (''used'', JInt count),
                           (''reset_at'', JTime nextMidnight)], [])
                   else Returns (c\<lparr>locals := (locals c)(''execution_count_key'' \<mapsto> AnyString key)\<rparr>,
                                 Next, [])))))"

definition IncrementCount ::
  "ExecutionLimiter \<Rightarrow> string \<Rightarrow> int \<Rightarrow> string \<Rightarrow> ExecutionLimiter \<times> error option \<times> string list" where
  "IncrementCount el today untilMidnight userID =
     (case redis el of
        None \<Rightarrow> (el, None, [])
      | Some rc \<Rightarrow>
          (let key = execution_key userID today;
               expiryDuration = untilMidnight + 24 * 3600000000000;
               (rc', err) = redis_Incr_Expire_Exec rc key expiryDuration
           in case err of
                Some e \<Rightarrow> (el\<lparr>redis := Some rc'\<rparr>, Some e, [''Failed to increment execution count: %v''])
              | None \<Rightarrow> (el\<lparr>redis := Some rc'\<rparr>, None,
                          [''Incremented execution count for user %s (key: %s)''])))"

definition GetRemainingExecutions ::
  "ExecutionLimiter \<Rightarrow> string \<Rightarrow> string \<Rightarrow> int64 \<times> error option" where
  "GetRemainingExecutions el today userID =
     (case redis el of
        None \<Rightarrow> (- 1, None)
      | Some rc \<Rightarrow>
          (let limits = GetLimits (tierService el) userID in
           if MaxExecutionsPerDay limits = - 1 then (- 1, None)
           else
             (let key = execution_key userID today;
                  (count, err) = redis_Get_Int64 rc key
              in if err = Some redis_Nil then (MaxExecutionsPerDay limits, None)
                 else if err \<noteq> None then (- 1, err)
                 else (let remaining = MaxExecutionsPerDay limits - count in
                       if remaining <s 0 then (0, None) else (remaining, None)))))"

section \<open>Memory model pool (package services)\<close>

text \<open>
  A \<open>time.Time\<close> is a number of nanoseconds, the zero \<open>time.Time{}\<close> being \<open>0\<close>, and a
  \<open>time.Duration\<close> is a number of nanoseconds. \<open>time.Since\<close> saturates at the bounds of
  a \<open>Duration\<close>, which are far beyond the cooldown, so comparing the exact difference
  with the cooldown decides as Go does. Go's \<open>int\<close> counters are far from their 64-bit
  bounds, so they are unbounded integers here; the index is never negative where \<open>%\<close> is
  applied to it, so \<open>mod\<close> is Go's \<open>%\<close> there.
\<close>

type_synonym Time = int

record ModelCandidate =
  ModelID :: string
  ProviderName :: string
  SpeedMs :: int
  DisplayName :: string

record ModelHealth =
  FailureCount :: int
  SuccessCount :: int
  LastFailure :: Time
  LastSuccess :: Time
  IsHealthy :: bool
  ConsecutiveFails :: int

text \<open>
  \<open>healthTracker\<close> is a \<open>map[string]*ModelHealth\<close>. Every pointer stored in it is a fresh
  \<open>&ModelHealth{IsHealthy: true}\<close>, one per key, so a record per key has the same
  behaviour: writing through the pointer found under a key is an update of the map at
  that key. The mutex, the chat service and the database handle play no part in the
  methods below.
\<close>

record MemoryModelPool =
  extractorModels :: "ModelCandidate list"
  selectorModels :: "ModelCandidate list"
  extractorIndex :: int
  selectorIndex :: int
  healthTracker :: "string \<rightharpoonup> ModelHealth"

definition MaxConsecutiveFailures :: int where
  "MaxConsecutiveFailures = 3"

definition HealthCheckCooldown :: int where
  "HealthCheckCooldown = 5 * 60000000000"

definition MinSuccessesToRecover :: int where
  "MinSuccessesToRecover = 2"

text \<open>
  The loop of \<open>GetNextExtractor\<close>. Each pass reads the clock once, in
  \<open>time.Since(health.LastFailure)\<close>: \<open>clock k\<close> is the reading of pass \<open>k\<close>. Reading
  \<open>p.extractorModels[p.extractorIndex]\<close> out of range and dereferencing the \<open>nil\<close> that
  the map yields for an untracked model both panic. After the loop the first model of
  the list is returned.
\<close>

function extractor_loop ::
  "(nat \<Rightarrow> Time) \<Rightarrow> nat \<Rightarrow> nat \<Rightarrow> MemoryModelPool
     \<Rightarrow> ((string \<times> error option) \<times> MemoryModelPool) outcome" where
  "extractor_loop clock attempts maxAttempts p =
     (if attempts < maxAttempts then
        (if extractorIndex p < 0 \<or> int (length (extractorModels p)) \<le> extractorIndex p
         then Panics ''index out of range''
         else
           (let candidate = extractorModels p ! nat (extractorIndex p);
                p1 = p\<lparr>extractorIndex :=
                         (extractorIndex p + 1) mod int (length (extractorModels p))\<rparr>
            in case healthTracker p1 (ModelID candidate) of
                 None \<Rightarrow> Panics ''invalid memory address or nil pointer dereference''
               | Some health \<Rightarrow>
                   if IsHealthy health then Returns ((ModelID candidate, None), p1)
                   else if clock attempts - LastFailure health > HealthCheckCooldown
                   then Returns ((ModelID candidate, None),
                          p1\<lparr>healthTracker := (healthTracker p1)(ModelID candidate \<mapsto>
                                 health\<lparr>IsHealthy := True, ConsecutiveFails := 0\<rparr>)\<rparr>)
                   else extractor_loop clock (attempts + 1) maxAttempts p1))
      else
        (case extractorModels p of
           [] \<Rightarrow> Panics ''index out of range''
         | fastest # _ \<Rightarrow> Returns ((ModelID fastest, None), p)))"
  by pat_completeness auto
termination
  by (relation "measure (\<lambda>(clock, attempts, maxAttempts, p). maxAttempts - attempts)") auto

definition GetNextExtractor ::
  "(nat \<Rightarrow> Time) \<Rightarrow> MemoryModelPool \<Rightarrow> ((string \<times> error option) \<times> MemoryModelPool) outcome" where
  "GetNextExtractor clock p =
     (if length (extractorModels p) = 0
      then Returns (([], Some (Errorf ''no extractor models available'')), p)
      else extractor_loop clock 0 (length (extractorModels p)) p)"

text \<open>\<open>MarkSuccess\<close> and \<open>MarkFailure\<close>; \<open>now\<close> is the reading of \<open>time.Now()\<close>.\<close>

definition MarkSuccess :: "Time \<Rightarrow> MemoryModelPool \<Rightarrow> string \<Rightarrow> MemoryModelPool" where
  "MarkSuccess now p modelID =
     (case healthTracker p modelID of
        None \<Rightarrow> p
      | Some health \<Rightarrow>
          (let h1 = health\<lparr>SuccessCount := SuccessCount health + 1,
                             LastSuccess := now,
                             ConsecutiveFails := 0\<rparr>;
               h2 = (if \<not> IsHealthy h1 \<and> MinSuccessesToRecover \<le> SuccessCount h1
                     then h1\<lparr>IsHealthy := True\<rparr> else h1)
           in p\<lparr>healthTracker := (healthTracker p)(modelID \<mapsto> h2)\<rparr>))"

definition MarkFailure :: "Time \<Rightarrow> MemoryModelPool \<Rightarrow> string \<Rightarrow> MemoryModelPool" where
  "MarkFailure now p modelID =
     (case healthTracker p modelID of
        None \<Rightarrow> p
      | Some health \<Rightarrow>
          (let h1 = health\<lparr>FailureCount := FailureCount health + 1,
                             ConsecutiveFails := ConsecutiveFails health + 1,
                             LastFailure := now\<rparr>;
               h2 = (if MaxConsecutiveFailures \<le> ConsecutiveFails h1
                     then h1\<lparr>IsHealthy := False\<rparr> else h1)
           in p\<lparr>healthTracker := (healthTracker p)(modelID \<mapsto> h2)\<rparr>))"

text \<open>
  \<open>GetNextSelector\<close> is the same loop over the selector list and its index; both
  methods share the health records.
\<close>

function selector_loop ::
  "(nat \<Rightarrow> Time) \<Rightarrow> nat \<Rightarrow> nat \<Rightarrow> MemoryModelPool
     \<Rightarrow> ((string \<times> error option) \<times> MemoryModelPool) outcome" where
  "selector_loop clock attempts maxAttempts p =
     (if attempts < maxAttempts then
        (if selectorIndex p < 0 \<or> int (length (selectorModels p)) \<le> selectorIndex p
         then Panics ''index out of range''
         else
           (let candidate = selectorModels p ! nat (selectorIndex p);
                p1 = p\<lparr>selectorIndex :=
                         (selectorIndex p + 1) mod int (length (selectorModels p))\<rparr>
            in case healthTracker p1 (ModelID candidate) of
                 None \<Rightarrow> Panics ''invalid memory address or nil pointer dereference''
               | Some health \<Rightarrow>
                   if IsHealthy health then Returns ((ModelID candidate, None), p1)
                   else if clock attempts - LastFailure health > HealthCheckCooldown
                   then Returns ((ModelID candidate, None),
                          p1\<lparr>healthTracker := (healthTracker p1)(ModelID candidate \<mapsto>
                                 health\<lparr>IsHealthy := True, ConsecutiveFails := 0\<rparr>)\<rparr>)
                   else selector_loop clock (attempts + 1) maxAttempts p1))
      else
        (case selectorModels p of
           [] \<Rightarrow> Panics ''index out of range''
         | fastest # _ \<Rightarrow> Returns ((ModelID fastest, None), p)))"
  by pat_completeness auto
termination
  by (relation "measure (\<lambda>(clock, attempts, maxAttempts, p). maxAttempts - attempts)") auto

definition GetNextSelector ::
  "(nat \<Rightarrow> Time) \<Rightarrow> MemoryModelPool \<Rightarrow> ((string \<times> error option) \<times> MemoryModelPool) outcome" where
  "GetNextSelector clock p =
     (if length (selectorModels p) = 0
      then Returns (([], Some (Errorf ''no selector models available'')), p)
      else selector_loop clock 0 (length (selectorModels p)) p)"

subsection \<open>How a pool is built\<close>

text \<open>
  \<open>sortModelsBySpeed\<close> is a bubble sort in place. \<open>n - 1\<close> and \<open>n - i - 1\<close> are never
  negative where a loop condition evaluates them on a non-empty list, and for the empty
  list Go's \<open>0 < -1\<close> and the truncated \<open>0 < 0\<close> are both false, so the subtraction
  of natural numbers decides both loop conditions as Go does.
\<close>

function sort_inner :: "nat \<Rightarrow> nat \<Rightarrow> nat \<Rightarrow> ModelCandidate list \<Rightarrow> ModelCandidate list" where
  "sort_inner n i j models =
     (if j < n - i - 1 then
        sort_inner n i (j + 1)
          (if SpeedMs (models ! j) > SpeedMs (models ! (j + 1))
           then models[j := models ! (j + 1), j + 1 := models ! j]
           else models)
      else models)"
  by pat_completeness auto
termination
  by (relation "measure (\<lambda>(n, i, j, models). n - i - 1 - j)") auto

function sort_outer :: "nat \<Rightarrow> nat \<Rightarrow> ModelCandidate list \<Rightarrow> ModelCandidate list" where
  "sort_outer n i models =
     (if i < n - 1 then sort_outer n (i + 1) (sort_inner n i 0 models) else models)"
  by pat_completeness auto
termination
  by (relation "measure (\<lambda>(n, i, models). n - 1 - i)") auto

definition sortModelsBySpeed :: "ModelCandidate list \<Rightarrow> ModelCandidate list" where
  "sortModelsBySpeed models = sort_outer (length models) 0 models"

text \<open>
  A row of the query on \<open>model_aliases\<close>, as \<open>rows.Scan\<close> fills it; a row that cannot be
  scanned is skipped. The database handle is \<open>nil\<close>, or the query fails, or it yields
  rows.
\<close>

record AliasRow =
  aliasName :: string
  providerName :: string
  displayName :: string
  speedMs :: int
  isExtractor :: int
  isSelector :: int

datatype Database = NoDatabase | QueryFails string | Rows "AliasRow option list"

definition fresh_health :: ModelHealth where
  "fresh_health =
     \<lparr>FailureCount = 0, SuccessCount = 0, LastFailure = 0, LastSuccess = 0,
      IsHealthy = True, ConsecutiveFails = 0\<rparr>"

definition add_extractor :: "ModelCandidate \<Rightarrow> MemoryModelPool \<Rightarrow> MemoryModelPool" where
  "add_extractor candidate p =
     p\<lparr>extractorModels := extractorModels p @ [candidate],
       healthTracker := (healthTracker p)(ModelID candidate \<mapsto> fresh_health)\<rparr>"

definition add_selector :: "ModelCandidate \<Rightarrow> MemoryModelPool \<Rightarrow> MemoryModelPool" where
  "add_selector candidate p =
     p\<lparr>healthTracker :=
         (if healthTracker p (ModelID candidate) = None
          then (healthTracker p)(ModelID candidate \<mapsto> fresh_health)
          else healthTracker p),
       selectorModels := selectorModels p @ [candidate]\<rparr>"

fun scan_rows ::
  "AliasRow option list \<Rightarrow> MemoryModelPool \<Rightarrow> ModelCandidate list
     \<Rightarrow> MemoryModelPool \<times> ModelCandidate list" where
  "scan_rows [] p candidates = (p, candidates)"
| "scan_rows (None # rows) p candidates = scan_rows rows p candidates"
| "scan_rows (Some row # rows) p candidates =
     (let candidate = \<lparr>ModelID = aliasName row, ProviderName = providerName row,
                        SpeedMs = speedMs row, DisplayName = displayName row\<rparr>;
          p1 = (if isExtractor row = 1 then add_extractor candidate p else p);
          p2 = (if isSelector row = 1 then add_selector candidate p1 else p1)
      in scan_rows rows p2 (candidates @ [candidate]))"

definition sort_both :: "MemoryModelPool \<Rightarrow> MemoryModelPool" where
  "sort_both p =
     p\<lparr>extractorModels := sortModelsBySpeed (extractorModels p),
       selectorModels := sortModelsBySpeed (selectorModels p)\<rparr>"

definition discoverFromDatabase ::
  "Database \<Rightarrow> MemoryModelPool \<Rightarrow> MemoryModelPool \<times> (error + ModelCandidate list)" where
  "discoverFromDatabase db p =
     (case db of
        NoDatabase \<Rightarrow> (p, Inl (Errorf ''database connection not available''))
      | QueryFails e \<Rightarrow> (p, Inl (Errorf (''failed to query model_aliases: '' @ e)))
      | Rows rows \<Rightarrow>
          (let (p1, candidates) = scan_rows rows p [] in (sort_both p1, Inr candidates)))"

text \<open>
  The fallback reads \<open>providers.json\<close>. Of a model alias only four entries of its
  configuration map are read, each through a type assertion: an entry is \<open>None\<close> when
  the key is missing or of another type. The aliases of a provider are listed in the
  order in which the loop over the map visits them.
\<close>

record ModelConfig =
  display_name :: "string option"
  structured_output_speed_ms :: "int option"
  memory_extractor :: "bool option"
  memory_selector :: "bool option"

record ProviderConfig =
  Name :: string
  Enabled :: bool
  ModelAliases :: "(string \<times> ModelConfig) list"

definition getDisplayName :: "ModelConfig \<Rightarrow> string" where
  "getDisplayName modelConfig =
     (case display_name modelConfig of Some name \<Rightarrow> name | None \<Rightarrow> ''Unknown'')"

definition getSpeedMs :: "ModelConfig \<Rightarrow> int" where
  "getSpeedMs modelConfig =
     (case structured_output_speed_ms modelConfig of Some speed \<Rightarrow> speed | None \<Rightarrow> 999999)"

fun add_aliases ::
  "string \<Rightarrow> (string \<times> ModelConfig) list \<Rightarrow> MemoryModelPool \<Rightarrow> MemoryModelPool" where
  "add_aliases provider [] p = p"
| "add_aliases provider ((alias, modelConfig) # aliases) p =
     (let candidate = \<lparr>ModelID = alias, ProviderName = provider,
                        SpeedMs = getSpeedMs modelConfig,
                        DisplayName = getDisplayName modelConfig\<rparr>;
          p1 = (if memory_extractor modelConfig = Some True then add_extractor candidate p else p);
          p2 = (if memory_selector modelConfig = Some True then add_selector candidate p1 else p1)
      in add_aliases provider aliases p2)"

fun add_providers :: "ProviderConfig list \<Rightarrow> MemoryModelPool \<Rightarrow> MemoryModelPool" where
  "add_providers [] p = p"
| "add_providers (providerConfig # providers) p =
     (if \<not> Enabled providerConfig then add_providers providers p
      else add_providers providers
             (add_aliases (Name providerConfig) (ModelAliases providerConfig) p))"

definition discoverModels ::
  "Database \<Rightarrow> (error + ProviderConfig list) \<Rightarrow> MemoryModelPool \<Rightarrow> MemoryModelPool" where
  "discoverModels db providersJSON p =
     (let (p1, found) = discoverFromDatabase db p in
      case found of
        Inr (candidate # candidates) \<Rightarrow> p1
      | _ \<Rightarrow>
         (case providersJSON of
            Inl err \<Rightarrow> p1
          | Inr providers \<Rightarrow> sort_both (add_providers providers p1)))"

definition NewMemoryModelPool :: "Database \<Rightarrow> (error + ProviderConfig list) \<Rightarrow> MemoryModelPool" where
  "NewMemoryModelPool db providersJSON =
     discoverModels db providersJSON
       \<lparr>extractorModels = [], selectorModels = [], extractorIndex = 0, selectorIndex = 0,
        healthTracker = Map.empty\<rparr>"

text \<open>
  For the proof that the bubble sort sorts: from position \<open>m\<close> on, every element is at
  least as slow as every element before it.
\<close>

definition settled :: "nat \<Rightarrow> ModelCandidate list \<Rightarrow> bool" where
  "settled m xs = (\<forall>a b. a < b \<and> m \<le> b \<and> b < length xs \<longrightarrow> SpeedMs (xs ! a) \<le> SpeedMs (xs ! b))"

text \<open>
  While a pool is being built its index is zero and every extractor listed so far has a
  health record.
\<close>

definition tracked :: "MemoryModelPool \<Rightarrow> bool" where
  "tracked p = (extractorIndex p = 0 \<and>
                (\<forall>c \<in> set (extractorModels p). healthTracker p (ModelID c) \<noteq> None))"

subsection \<open>What the selection is meant to be\<close>

text \<open>
  The description of the selection, in its own words, for comparison with the loop.
  \<open>candidate_at p k\<close> is the candidate that round-robin reaches \<open>k\<close> steps after the
  current index. A candidate is \<open>usable\<close> at pass \<open>k\<close> when its health record is healthy
  or more than the cooldown has passed since its last failure. \<open>selected p k\<close> is the
  pool once candidate \<open>k\<close> has been chosen: the index stands just behind it, and its
  record, if it was unhealthy, is healthy again with no consecutive failures.
\<close>

definition candidate_at :: "MemoryModelPool \<Rightarrow> nat \<Rightarrow> ModelCandidate" where
  "candidate_at p k =
     extractorModels p ! nat ((extractorIndex p + int k) mod int (length (extractorModels p)))"

definition usable :: "(nat \<Rightarrow> Time) \<Rightarrow> MemoryModelPool \<Rightarrow> nat \<Rightarrow> bool" where
  "usable clock p k =
     (case healthTracker p (ModelID (candidate_at p k)) of
        None \<Rightarrow> False
      | Some health \<Rightarrow> IsHealthy health \<or> HealthCheckCooldown < clock k - LastFailure health)"

definition selected :: "MemoryModelPool \<Rightarrow> nat \<Rightarrow> MemoryModelPool" where
  "selected p k =
     (let modelID = ModelID (candidate_at p k);
          p1 = p\<lparr>extractorIndex :=
                   (extractorIndex p + int k + 1) mod int (length (extractorModels p))\<rparr>
      in case healthTracker p modelID of
           None \<Rightarrow> p1
         | Some health \<Rightarrow>
             if IsHealthy health then p1
             else p1\<lparr>healthTracker := (healthTracker p)(modelID \<mapsto>
                        health\<lparr>IsHealthy := True, ConsecutiveFails := 0\<rparr>)\<rparr>)"

text \<open>
  The pools that the program builds and keeps: the index is a position of the list (or
  zero while the list is empty), every extractor has a health record, and the
  extractors are listed by increasing \<open>SpeedMs\<close>, fastest first.
\<close>

definition pool_ok :: "MemoryModelPool \<Rightarrow> bool" where
  "pool_ok p =
     (0 \<le> extractorIndex p \<and>
      (extractorIndex p < int (length (extractorModels p)) \<or>
       (extractorModels p = [] \<and> extractorIndex p = 0)) \<and>
      list_all (\<lambda>c. healthTracker p (ModelID c) \<noteq> None) (extractorModels p) \<and>
      sorted_wrt (\<lambda>a b. SpeedMs a \<le> SpeedMs b) (extractorModels p))"

text \<open>The pool after \<open>a\<close> passes of the loop that chose nothing.\<close>

definition advanced :: "MemoryModelPool \<Rightarrow> nat \<Rightarrow> MemoryModelPool" where
  "advanced p a =
     p\<lparr>extractorIndex := (extractorIndex p + int a) mod int (length (extractorModels p))\<rparr>"

section \<open>Workflow WebSocket handler (package handlers)\<close>

subsection \<open>Collaborators\<close>

text \<open>
  The agent service, the execution service and the workflow engine are collaborators of
  the handler. Each is the function that the handler calls: it returns either an error
  or a value, so a call that does not return or that panics is not covered. The engine also sends updates on the status channel before it returns; they are
  the first component of its result. An \<open>ObjectID\<close> is its hexadecimal form.
\<close>

record Workflow =
  Version :: int

record Agent =
  Description :: string
  Workflow :: "Workflow option"

record AgentService =
  GetAgent :: "string \<Rightarrow> string \<Rightarrow> error + Agent"

record CreateExecutionRequest =
  AgentID :: string
  UserID :: string
  WorkflowVersion :: int
  TriggerType :: string
  Input :: "(string \<rightharpoonup> any) option"

record ExecutionRecord =
  ID :: string

record ExecutionAPIResponse =
  Result :: string
  Artifacts :: "string list"
  Files :: "string list"
  Metadata_AgentID :: string

record ExecutionCompleteRequest =
  Status :: string
  Output :: "(string \<rightharpoonup> any) option"
  BlockStates :: "(string \<rightharpoonup> string) option"
  Error :: string
  Result :: string
  Artifacts :: "string list"
  Files :: "string list"

record ExecutionService =
  Create :: "CreateExecutionRequest \<Rightarrow> error + ExecutionRecord"

record ExecutionOptions =
  WorkflowGoal :: string
  EnableBlockChecker :: bool
  CheckerModelID :: string

record ExecutionUpdate =
  ExecutionID :: string
  BlockID :: string
  Status :: string
  Inputs :: "(string \<rightharpoonup> any) option"
  Output :: "(string \<rightharpoonup> any) option"
  Error :: string

record ExecutionResult =
  Status :: string
  Output :: "(string \<rightharpoonup> any) option"
  BlockStates :: "(string \<rightharpoonup> string) option"
  Error :: string

record WorkflowEngine =
  ExecuteWithOptions ::
    "Workflow \<Rightarrow> (string \<rightharpoonup> any) \<Rightarrow> ExecutionOptions
       \<Rightarrow> ExecutionUpdate list \<times> (error + ExecutionResult)"
  BuildAPIResponse ::
    "ExecutionResult \<Rightarrow> Workflow \<Rightarrow> string \<Rightarrow> int64 \<Rightarrow> ExecutionAPIResponse"

subsection \<open>Messages\<close>

record WorkflowClientMessage =
  Type :: string
  AgentID :: string
  Input :: "(string \<rightharpoonup> any) option"
  EnableBlockChecker :: bool
  CheckerModelID :: string

record WorkflowServerMessage =
  Type :: string
  ExecutionID :: string
  BlockID :: string
  Status :: string
  Inputs :: "(string \<rightharpoonup> any) option"
  Output :: "(string \<rightharpoonup> any) option"
  FinalOutput :: "(string \<rightharpoonup> any) option"
  Duration :: int64
  Error :: string
  APIResponse :: "ExecutionAPIResponse option"

text \<open>A struct literal leaves the fields it does not name at their zero values.\<close>

definition zero_message :: WorkflowServerMessage where
  "zero_message =
     \<lparr>WorkflowServerMessage.Type = [], ExecutionID = [], BlockID = [], Status = [],
      Inputs = None, Output = None, FinalOutput = None, Duration = 0, Error = [],
      APIResponse = None\<rparr>"

definition error_message :: "string \<Rightarrow> WorkflowServerMessage" where
  "error_message text = zero_message\<lparr>WorkflowServerMessage.Type := ''error'', Error := text\<rparr>"

fun Error_text :: "error \<Rightarrow> string" where
  "Error_text (Errorf s) = s"
| "Error_text redis_Nil = ''redis: nil''"

subsection \<open>The handler\<close>

record WorkflowWebSocketHandler =
  agentService :: AgentService
  executionService :: "ExecutionService option"
  workflowEngine :: WorkflowEngine
  executionLimiter :: "ExecutionLimiter option"

text \<open>
  What one call of \<open>handleExecuteWorkflow\<close> reads from its surroundings: the date when
  the limit is checked, the date and the time left until midnight when the counter is
  incremented, the identifier that \<open>uuid.New()\<close> yields, and the milliseconds elapsed
  when the engine has returned.
\<close>

record Readings =
  today :: string
  todayAtIncrement :: string
  untilMidnight :: int
  newUUID :: string
  elapsedMs :: int64

text \<open>
  The handler is followed through the actions it performs, in program order: log lines,
  messages written to the connection, calls of the execution service, and what it does
  with the status channel. \<open>GoForward ms\<close> is the start of the goroutine that ranges
  over the status channel; \<open>ms\<close> are the messages that goroutine writes, concurrently
  with the actions that follow it.
\<close>

datatype event =
    Log string
  | WriteJSON WorkflowServerMessage
  | CallCreate CreateExecutionRequest
  | CallComplete string ExecutionCompleteRequest
  | MakeStatusChan
  | GoForward "WorkflowServerMessage list"
  | CallExecuteWithOptions Workflow "string \<rightharpoonup> any" ExecutionOptions
  | CloseStatusChan

definition forward_update :: "string \<Rightarrow> ExecutionUpdate \<Rightarrow> WorkflowServerMessage" where
  "forward_update execID update =
     zero_message\<lparr>WorkflowServerMessage.Type := ''execution_update'',
                  WorkflowServerMessage.ExecutionID := execID,
                  WorkflowServerMessage.BlockID := ExecutionUpdate.BlockID update,
                  WorkflowServerMessage.Status := ExecutionUpdate.Status update,
                  WorkflowServerMessage.Inputs := ExecutionUpdate.Inputs update,
                  WorkflowServerMessage.Output := ExecutionUpdate.Output update,
                  WorkflowServerMessage.Error := ExecutionUpdate.Error update\<rparr>"

text \<open>
  \<open>handleExecuteWorkflow\<close> is one function in the source; its consecutive blocks are
  separate definitions here. First the check of the daily limit: the flag says whether
  the handler returns at this point.
\<close>

definition check_daily_limit ::
  "WorkflowWebSocketHandler \<Rightarrow> Readings \<Rightarrow> string \<Rightarrow> bool \<times> event list" where
  "check_daily_limit h w userID =
     (case executionLimiter h of
        None \<Rightarrow> (False, [])
      | Some el \<Rightarrow>
          (let (remaining, err) = GetRemainingExecutions el (today w) userID in
           if err \<noteq> None
           then (False, [Log ''[WORKFLOW-WS] Failed to check execution limit: %v''])
           else if remaining = 0
           then (True,
                 [Log ''[WORKFLOW-WS] User %s exceeded daily execution limit'',
                  WriteJSON (error_message
                    ''Daily execution limit exceeded. Please upgrade your plan or wait until tomorrow.'')])
           else if 0 <s remaining
           then (False, [Log ''[WORKFLOW-WS] User %s has %d executions remaining today''])
           else (False, [])))"

text \<open>
  The execution record: created by the execution service when there is one, otherwise a
  local identifier. On success the result is the identifier, the object id and the
  actions performed; on failure only the actions.
\<close>

definition create_execution ::
  "WorkflowWebSocketHandler \<Rightarrow> Readings \<Rightarrow> string \<Rightarrow> WorkflowClientMessage \<Rightarrow> Workflow
     \<Rightarrow> event list + (string \<times> string \<times> event list)" where
  "create_execution h w userID msg workflow =
     (case executionService h of
        Some svc \<Rightarrow>
          (let req = \<lparr>CreateExecutionRequest.AgentID = WorkflowClientMessage.AgentID msg,
                      UserID = userID,
                      WorkflowVersion = Version workflow,
                      TriggerType = ''manual'',
                      CreateExecutionRequest.Input = WorkflowClientMessage.Input msg\<rparr>
           in case Create svc req of
                Inl err \<Rightarrow>
                  Inl [CallCreate req,
                       Log ''[WORKFLOW-WS] Failed to create execution: %v'',
                       WriteJSON (error_message (''Failed to create execution: '' @ Error_text err))]
              | Inr execRecord \<Rightarrow> Inr (ID execRecord, ID execRecord, [CallCreate req]))
      | None \<Rightarrow>
          Inr (newUUID w, ''000000000000000000000000'',
               [Log ''[WORKFLOW-WS] ExecutionService not available, using local ID: %s'']))"

text \<open>The counter of the day is incremented; a failure is only logged.\<close>

definition increment_counter ::
  "WorkflowWebSocketHandler \<Rightarrow> Readings \<Rightarrow> string \<Rightarrow> ExecutionLimiter option \<times> event list" where
  "increment_counter h w userID =
     (case executionLimiter h of
        None \<Rightarrow> (None, [])
      | Some el \<Rightarrow>
          (let (el', err, logs) = IncrementCount el (todayAtIncrement w) (untilMidnight w) userID in
           (Some el',
            map Log logs @
            (if err \<noteq> None
             then [Log ''[WORKFLOW-WS] Failed to increment execution count: %v'']
             else []))))"

text \<open>
  From the creation of the status channel to the final message. The user id is written
  into the input map, which is created when the message carried none.
\<close>

definition inject_user_id :: "(string \<rightharpoonup> any) option \<Rightarrow> string \<Rightarrow> (string \<rightharpoonup> any)" where
  "inject_user_id input userID =
     (case input of None \<Rightarrow> Map.empty | Some m \<Rightarrow> m)(''__user_id__'' \<mapsto> AnyString userID)"

definition execute_and_report ::
  "WorkflowWebSocketHandler \<Rightarrow> Readings \<Rightarrow> string \<Rightarrow> WorkflowClientMessage \<Rightarrow> Agent
     \<Rightarrow> Workflow \<Rightarrow> string \<Rightarrow> string \<Rightarrow> event list" where
  "execute_and_report h w userID msg agent workflow execID execObjectID =
     (let input = inject_user_id (WorkflowClientMessage.Input msg) userID;
          execOptions =
            \<lparr>WorkflowGoal = Description agent,
             ExecutionOptions.EnableBlockChecker = WorkflowClientMessage.EnableBlockChecker msg,
             ExecutionOptions.CheckerModelID = WorkflowClientMessage.CheckerModelID msg\<rparr>;
          (updates, outcome) = ExecuteWithOptions (workflowEngine h) workflow input execOptions;
          duration = elapsedMs w
      in [MakeStatusChan,
          GoForward (map (forward_update execID) updates),
          Log (if WorkflowClientMessage.EnableBlockChecker msg
               then ''[WORKFLOW-WS] Block checker ENABLED (model: %s)''
               else ''[WORKFLOW-WS] Block checker DISABLED''),
          Log ''[WORKFLOW-WS] Executing with input: %+v'',
          CallExecuteWithOptions workflow input execOptions,
          CloseStatusChan] @
         (case outcome of
            Inl err \<Rightarrow>
              [Log ''[WORKFLOW-WS] Execution failed: %v''] @
              (if executionService h \<noteq> None
               then [CallComplete execObjectID
                       \<lparr>ExecutionCompleteRequest.Status = ''failed'',
                        ExecutionCompleteRequest.Output = None,
                        ExecutionCompleteRequest.BlockStates = None,
                        ExecutionCompleteRequest.Error = Error_text err,
                        ExecutionCompleteRequest.Result = [],
                        ExecutionCompleteRequest.Artifacts = [],
                        ExecutionCompleteRequest.Files = []\<rparr>]
               else []) @
              [WriteJSON (zero_message
                 \<lparr>WorkflowServerMessage.Type := ''execution_complete'',
                  WorkflowServerMessage.ExecutionID := execID,
                  WorkflowServerMessage.Status := ''failed'',
                  Duration := duration,
                  WorkflowServerMessage.Error := Error_text err\<rparr>)]
          | Inr result \<Rightarrow>
              (let apiResponse =
                     (BuildAPIResponse (workflowEngine h) result workflow execID duration)
                       \<lparr>Metadata_AgentID := WorkflowClientMessage.AgentID msg\<rparr>
               in (if executionService h \<noteq> None
                   then [CallComplete execObjectID
                           \<lparr>ExecutionCompleteRequest.Status = ExecutionResult.Status result,
                            ExecutionCompleteRequest.Output = ExecutionResult.Output result,
                            ExecutionCompleteRequest.BlockStates = ExecutionResult.BlockStates result,
                            ExecutionCompleteRequest.Error = ExecutionResult.Error result,
                            ExecutionCompleteRequest.Result = ExecutionAPIResponse.Result apiResponse,
                            ExecutionCompleteRequest.Artifacts =
                              ExecutionAPIResponse.Artifacts apiResponse,
                            ExecutionCompleteRequest.Files = ExecutionAPIResponse.Files apiResponse\<rparr>]
                   else []) @
                  [Log ''[WORKFLOW-WS] Execution %s completed: status=%s, duration=%dms, result=%d chars'',
                   WriteJSON (zero_message
                     \<lparr>WorkflowServerMessage.Type := ''execution_complete'',
                      WorkflowServerMessage.ExecutionID := execID,
                      WorkflowServerMessage.Status := ExecutionResult.Status result,
                      FinalOutput := ExecutionResult.Output result,
                      Duration := duration,
                      WorkflowServerMessage.Error := ExecutionResult.Error result,
                      APIResponse := Some apiResponse\<rparr>)])))"

text \<open>
  The whole function: the actions performed and the limiter as the call leaves it.
\<close>

definition handleExecuteWorkflow ::
  "WorkflowWebSocketHandler \<Rightarrow> Readings \<Rightarrow> string \<Rightarrow> WorkflowClientMessage
     \<Rightarrow> event list \<times> ExecutionLimiter option" where
  "handleExecuteWorkflow h w userID msg =
     (let received = [Log ''[WORKFLOW-WS] Received execute request: AgentID=%s, Input=%+v''];
          (stop, limit_events) = check_daily_limit h w userID
      in if stop then (received @ limit_events, executionLimiter h)
         else
           (case GetAgent (agentService h) (WorkflowClientMessage.AgentID msg) userID of
              Inl err \<Rightarrow>
                (received @ limit_events @
                 [Log ''[WORKFLOW-WS] Agent not found: %s'',
                  WriteJSON (error_message (''Agent not found: '' @ Error_text err))],
                 executionLimiter h)
            | Inr agent \<Rightarrow>
                (case Workflow agent of
                   None \<Rightarrow>
                     (received @ limit_events @
                      [Log ''[WORKFLOW-WS] No workflow for agent: %s'',
                       WriteJSON (error_message ''Agent has no workflow defined'')],
                      executionLimiter h)
                 | Some workflow \<Rightarrow>
                     (case create_execution h w userID msg workflow of
                        Inl create_events \<Rightarrow>
                          (received @ limit_events @ create_events, executionLimiter h)
                      | Inr (execID, execObjectID, create_events) \<Rightarrow>
                          (let started =
                                 [Log ''[WORKFLOW-WS] Starting execution %s for agent %s'',
                                  WriteJSON (zero_message
                                    \<lparr>WorkflowServerMessage.Type := ''execution_started'',
                                     WorkflowServerMessage.ExecutionID := execID\<rparr>)];
                               (limiter', increment_events) = increment_counter h w userID
                           in (received @ limit_events @ create_events @ started @
                               increment_events @
                               execute_and_report h w userID msg agent workflow execID execObjectID,
                               limiter'))))))"

subsection \<open>Reading a sequence of actions\<close>

text \<open>
  The messages that the handler itself writes to the connection, in order; whether an
  action is the call of the engine; whether it closes the status channel.
\<close>

fun written :: "event list \<Rightarrow> WorkflowServerMessage list" where
  "written [] = []"
| "written (WriteJSON m # es) = m # written es"
| "written (e # es) = written es"

fun is_engine_call :: "event \<Rightarrow> bool" where
  "is_engine_call (CallExecuteWithOptions workflow input options) = True"
| "is_engine_call e = False"

fun is_close :: "event \<Rightarrow> bool" where
  "is_close CloseStatusChan = True"
| "is_close e = False"


definition accepted ::
  "WorkflowWebSocketHandler \<Rightarrow> Readings \<Rightarrow> string \<Rightarrow> WorkflowClientMessage \<Rightarrow> bool" where
  "accepted h w userID msg =
     (\<not> fst (check_daily_limit h w userID) \<and>
      (case GetAgent (agentService h) (WorkflowClientMessage.AgentID msg) userID of
         Inl err \<Rightarrow> False
       | Inr agent \<Rightarrow>
           (case Workflow agent of
              None \<Rightarrow> False
            | Some workflow \<Rightarrow> \<not> isl (create_execution h w userID msg workflow))))"

definition quiet :: "event list \<Rightarrow> bool" where
  "quiet es = list_all (\<lambda>e. \<not> is_engine_call e \<and> \<not> is_close e) es"

section \<open>Concrete inputs\<close>

text \<open>
  The inputs at which the theorems below are instantiated. First a pool of two extractors,
  both unhealthy: \<open>fast\<close> failed last at second 1000, \<open>slow\<close> at second 500.
\<close>

definition healthy_record :: ModelHealth where
  "healthy_record =
     \<lparr>FailureCount = 0, SuccessCount = 0, LastFailure = 0, LastSuccess = 0,
      IsHealthy = True, ConsecutiveFails = 0\<rparr>"

definition two_model_pool :: MemoryModelPool where
  "two_model_pool =
     \<lparr>extractorModels =
        [\<lparr>ModelID = ''fast'', ProviderName = ''p1'', SpeedMs = 100, ModelCandidate.DisplayName = ''Fast''\<rparr>,
         \<lparr>ModelID = ''slow'', ProviderName = ''p2'', SpeedMs = 900, ModelCandidate.DisplayName = ''Slow''\<rparr>],
      selectorModels = [],
      extractorIndex = 0,
      selectorIndex = 0,
      healthTracker =
        [''fast'' \<mapsto> healthy_record\<lparr>FailureCount := 3, LastFailure := 1000000000000,
                                   IsHealthy := False, ConsecutiveFails := 3\<rparr>,
         ''slow'' \<mapsto> healthy_record\<lparr>FailureCount := 4, LastFailure := 500000000000,
                                   IsHealthy := False, ConsecutiveFails := 4\<rparr>]\<rparr>"

definition at_second_1100 :: "nat \<Rightarrow> Time" where
  "at_second_1100 k = 1100000000000"

text \<open>
  A tier service that gives every user the same daily limit, a Redis client holding
  given counters, and one whose server cannot be reached.
\<close>

definition tier_with_limit :: "int64 \<Rightarrow> TierService" where
  "tier_with_limit n = \<lparr>GetLimits = (\<lambda>userID. \<lparr>MaxExecutionsPerDay = n\<rparr>)\<rparr>"



text \<open>
  For the handler: an agent with a workflow, an agent service that finds it and one that
  finds nothing, an engine that completes with one update and an engine that fails, a
  handler without limiter and without execution service, and a request.
\<close>

definition summary_agent :: Agent where
  "summary_agent = \<lparr>Description = ''Summarise a text'', Workflow = Some \<lparr>Version = 3\<rparr>\<rparr>"

definition agents_found :: AgentService where
  "agents_found = \<lparr>GetAgent = (\<lambda>agentID userID. Inr summary_agent)\<rparr>"

definition agents_missing :: AgentService where
  "agents_missing = \<lparr>GetAgent = (\<lambda>agentID userID. Inl (Errorf ''agent not found''))\<rparr>"

definition engine_failing :: WorkflowEngine where
  "engine_failing =
     \<lparr>ExecuteWithOptions = (\<lambda>workflow input options. ([], Inl (Errorf ''workflow has no blocks''))),
      BuildAPIResponse = (\<lambda>result workflow execID duration.
        \<lparr>ExecutionAPIResponse.Result = [], Artifacts = [], Files = [], Metadata_AgentID = []\<rparr>)\<rparr>"

definition engine_completing :: WorkflowEngine where
  "engine_completing =
     \<lparr>ExecuteWithOptions = (\<lambda>workflow input options.
        ([\<lparr>ExecutionUpdate.ExecutionID = [], BlockID = ''start'', Status = ''completed'',
           Inputs = None, Output = None, Error = []\<rparr>],
         Inr \<lparr>ExecutionResult.Status = ''completed'', Output = None, BlockStates = None,
              Error = []\<rparr>)),
      BuildAPIResponse = (\<lambda>result workflow execID duration.
        \<lparr>ExecutionAPIResponse.Result = ''done'', Artifacts = [], Files = [],
         Metadata_AgentID = []\<rparr>)\<rparr>"

definition plain_handler :: "AgentService \<Rightarrow> WorkflowEngine \<Rightarrow> WorkflowWebSocketHandler" where
  "plain_handler agents engine =
     \<lparr>agentService = agents, executionService = None, workflowEngine = engine,
      executionLimiter = None\<rparr>"

definition readings :: Readings where
  "readings = \<lparr>today = ''2026-01-01'', todayAtIncrement = ''2026-01-01'',
               untilMidnight = 3600000000000,
               newUUID = ''exec-1'', elapsedMs = 42\<rparr>"

definition request :: WorkflowClientMessage where
  "request = \<lparr>WorkflowClientMessage.Type = ''execute_workflow'', AgentID = ''agent-1'',
              Input = None, EnableBlockChecker = False, CheckerModelID = []\<rparr>"






section \<open>The executor registry: proofs\<close>

text \<open>
  Claim C5. \<open>Get\<close> returns an error exactly when no executor is registered for the block
  type, and the error is then the one that names the block type (the code carries no
  separate error kind: the error is this message). On the registry that
  \<open>NewExecutorRegistry\<close> builds, \<open>Get\<close> succeeds exactly for \<open>variable\<close>,
  \<open>llm_inference\<close> and \<open>code_block\<close>.
\<close>

theorem Get_fails_iff_unregistered:
  "((\<exists>e. Get r blockType = Inl e) = (executors r blockType = None))
   \<and> ((Get r blockType
         = Inl (Errorf (''no executor registered for block type: '' @ blockType)))
        = (executors r blockType = None))
   \<and> ((\<exists>x. Get (NewExecutorRegistry cs ps tr cr) blockType = Inr x)
        = (blockType = ''variable'' \<or> blockType = ''llm_inference'' \<or> blockType = ''code_block''))"
  by (auto simp: Get_def NewExecutorRegistry_def split: option.splits)

theorem Get_fails_iff_unregistered_witness:
  "(\<exists>x. Get (NewExecutorRegistry (1::nat) (2::nat) (3::nat) (4::nat)) ''code_block'' = Inr x)
   \<and> Get (NewExecutorRegistry (1::nat) (2::nat) (3::nat) (4::nat)) ''http_request''
       = Inl (Errorf ''no executor registered for block type: http_request'')"
proof -
  have "executors (NewExecutorRegistry (1::nat) (2::nat) (3::nat) (4::nat)) ''http_request'' = None"
    by (simp add: NewExecutorRegistry_def)
  then show ?thesis
    using Get_fails_iff_unregistered
            [of "NewExecutorRegistry (1::nat) (2::nat) (3::nat) (4::nat)" "''http_request''"
                "1::nat" "2::nat" "3::nat" "4::nat"]
          Get_fails_iff_unregistered
            [of "NewExecutorRegistry (1::nat) (2::nat) (3::nat) (4::nat)" "''code_block''"
                "1::nat" "2::nat" "3::nat" "4::nat"]
    by simp
qed

text \<open>
  Claim C8. After \<open>Register(t, x)\<close>, \<open>Get(t)\<close> returns \<open>x\<close> and no error, also when another
  executor had been registered for \<open>t\<close> before; what \<open>Get\<close> returns for any other block
  type is what it returned before the registration.
\<close>

theorem Register_then_Get:
  "Get (Register r t x) t = Inr x
   \<and> Get (Register (Register r t y) t x) t = Inr x
   \<and> (t' \<noteq> t \<longrightarrow> Get (Register r t x) t' = Get r t')"
  by (simp add: Get_def Register_def)

theorem Register_then_Get_witness:
  "''variable'' \<noteq> ''code_block''
   \<and> Get (Register (NewExecutorRegistry (1::nat) (2::nat) (3::nat) (4::nat))
             ''code_block'' NewVariableExecutor) ''code_block''
       = Inr NewVariableExecutor
   \<and> Get (Register (NewExecutorRegistry (1::nat) (2::nat) (3::nat) (4::nat))
             ''code_block'' NewVariableExecutor) ''variable''
       = Inr NewVariableExecutor"
proof -
  have "Get (NewExecutorRegistry (1::nat) (2::nat) (3::nat) (4::nat)) ''variable''
        = Inr NewVariableExecutor"
    by (simp add: Get_def NewExecutorRegistry_def)
  then show ?thesis
    using Register_then_Get
            [of "NewExecutorRegistry (1::nat) (2::nat) (3::nat) (4::nat)" "''code_block''"
                NewVariableExecutor NewVariableExecutor "''variable''"]
    by simp
qed

section \<open>The execution limiter: proofs\<close>

text \<open>
  Claim C9. On a limiter constructed with a nil Redis client, \<open>IncrementCount\<close> returns
  \<open>nil\<close>, logs nothing and leaves the limiter as it was (there is no counter it could
  touch), and \<open>GetRemainingExecutions\<close> returns \<open>(-1, nil)\<close>, whatever the user's tier.
\<close>

theorem nil_redis_disables_limiting:
  "IncrementCount (NewExecutionLimiter ts None) d u userID
     = (NewExecutionLimiter ts None, None, [])
   \<and> GetRemainingExecutions (NewExecutionLimiter ts None) d userID = (- 1, None)"
  by (simp add: IncrementCount_def GetRemainingExecutions_def NewExecutionLimiter_def)

theorem nil_redis_disables_limiting_witness:
  "IncrementCount (NewExecutionLimiter (tier_with_limit 5) None) ''2026-01-01'' 3600000000000 ''user-1''
     = (\<lparr>tierService = tier_with_limit 5, redis = None\<rparr>, None, [])
   \<and> GetRemainingExecutions (NewExecutionLimiter (tier_with_limit 5) None) ''2026-01-01'' ''user-1''
     = (- 1, None)"
  using nil_redis_disables_limiting
          [of "tier_with_limit 5" "''2026-01-01''" 3600000000000 "''user-1''"]
  by (simp add: NewExecutionLimiter_def)

text \<open>For contrast, with a client whose server answers, the counter of the day goes up.\<close>

lemma IncrementCount_live:
  assumes "redis el = Some rc" "fault rc = None" "counters rc (execution_key userID d) = Some n"
    "n \<noteq> 0x7FFFFFFFFFFFFFFF"
  shows "IncrementCount el d u userID
         = (el\<lparr>redis := Some (rc\<lparr>counters := (counters rc)(execution_key userID d \<mapsto> n + 1),
                                   expiry := (expiry rc)(execution_key userID d \<mapsto>
                                               u + 86400000000000)\<rparr>)\<rparr>,
            None, [''Incremented execution count for user %s (key: %s)''])"
  using assms by (simp add: IncrementCount_def redis_Incr_Expire_Exec_def Let_def)













text \<open>
  Without a Redis client \<open>CheckLimit\<close> cannot read the count of a limited tier: the call
  on the \<open>nil\<close> client panics.
\<close>

lemma CheckLimit_nil_redis:
  assumes "locals c ''user_id'' = Some (AnyString userIDStr)" "redis el = None"
    "MaxExecutionsPerDay (GetLimits (tierService el) userIDStr) \<noteq> - 1"
  shows "CheckLimit el d nm c = Panics ''invalid memory address or nil pointer dereference''"
  using assms by (simp add: CheckLimit_def Let_def)

section \<open>Building the pool: proofs\<close>

declare sort_inner.simps [simp del] sort_outer.simps [simp del]

lemma sort_inner_length [simp]: "length (sort_inner n i j xs) = length xs"
  by (induction n i j xs rule: sort_inner.induct) (subst sort_inner.simps, simp)

lemma sort_outer_length [simp]: "length (sort_outer n i xs) = length xs"
  by (induction n i xs rule: sort_outer.induct) (subst sort_outer.simps, simp)

lemma sort_inner_mset:
  "n = length xs \<Longrightarrow> mset (sort_inner n i j xs) = mset xs"
proof (induction n i j xs rule: sort_inner.induct)
  case (1 n i j models)
  show ?case
  proof (cases "j < n - i - 1")
    case True
    then have r: "j < length models" "j + 1 < length models" using "1.prems" by simp_all
    let ?ys = "if SpeedMs (models ! j) > SpeedMs (models ! (j + 1))
               then models[j := models ! (j + 1), j + 1 := models ! j] else models"
    have len: "n = length ?ys" using "1.prems" by simp
    have "sort_inner n i j models = sort_inner n i (j + 1) ?ys"
      using True by (subst sort_inner.simps) simp
    then have "mset (sort_inner n i j models) = mset ?ys"
      using "1.IH"[OF True len] by simp
    also have "\<dots> = mset models"
      using r by (simp add: mset_swap)
    finally show ?thesis .
  next
    case False
    then show ?thesis by (subst sort_inner.simps) simp
  qed
qed

lemma sort_outer_mset:
  "n = length xs \<Longrightarrow> mset (sort_outer n i xs) = mset xs"
proof (induction n i xs rule: sort_outer.induct)
  case (1 n i models)
  show ?case
    using "1.IH" "1.prems"
    by (subst sort_outer.simps) (simp add: sort_inner_mset)
qed

lemma sort_inner_settles:
  assumes "n = length xs" "i < n - 1" "j \<le> n - i - 1" "settled (n - i) xs"
    "\<forall>a < j. SpeedMs (xs ! a) \<le> SpeedMs (xs ! j)"
  shows "settled (n - i - 1) (sort_inner n i j xs)"
  using assms
proof (induction n i j xs rule: sort_inner.induct)
  case (1 n i j models)
  show ?case
  proof (cases "j < n - i - 1")
    case False
    with "1.prems" have j: "j = n - i - 1" by simp
    have "settled (n - i - 1) models"
      unfolding settled_def
    proof (intro allI impI)
      fix a b assume ab: "a < b \<and> n - i - 1 \<le> b \<and> b < length models"
      show "SpeedMs (models ! a) \<le> SpeedMs (models ! b)"
      proof (cases "b = n - i - 1")
        case True
        then show ?thesis using "1.prems"(5) ab j by simp
      next
        case False
        then have "n - i \<le> b" using ab by linarith
        then show ?thesis using "1.prems"(4) ab by (simp add: settled_def)
      qed
    qed
    then show ?thesis using False by (subst sort_inner.simps) simp
  next
    case True
    let ?ys = "if SpeedMs (models ! j) > SpeedMs (models ! (j + 1))
               then models[j := models ! (j + 1), j + 1 := models ! j] else models"
    have r: "j < length models" "j + 1 < length models" "j + 1 < n - i"
      using True "1.prems" by simp_all
    have len: "n = length ?ys" using "1.prems" by simp
    have s: "settled (n - i) ?ys"
    proof (cases "SpeedMs (models ! j) > SpeedMs (models ! (j + 1))")
      case False
      then show ?thesis using "1.prems"(4) by simp
    next
      case sw: True
      have "SpeedMs (models[j := models ! (j + 1), j + 1 := models ! j] ! a)
            \<le> SpeedMs (models[j := models ! (j + 1), j + 1 := models ! j] ! b)"
        if ab: "a < b" "n - i \<le> b" "b < length models" for a b
      proof -
        have b: "models[j := models ! (j + 1), j + 1 := models ! j] ! b = models ! b"
          using ab r by simp
        have "\<exists>a' < b. models[j := models ! (j + 1), j + 1 := models ! j] ! a = models ! a'"
        proof (cases "a = j + 1")
          case True
          then show ?thesis using r ab by (intro exI[of _ j]) simp
        next
          case False
          show ?thesis
          proof (cases "a = j")
            case True
            then show ?thesis using r ab by (intro exI[of _ "j + 1"]) simp
          next
            case aj: False
            then show ?thesis using False r ab by (intro exI[of _ a]) simp
          qed
        qed
        then obtain a' where "a' < b"
          "models[j := models ! (j + 1), j + 1 := models ! j] ! a = models ! a'" by blast
        then show ?thesis using b "1.prems"(4) ab by (simp add: settled_def)
      qed
      then show ?thesis using sw by (simp add: settled_def)
    qed
    have m: "\<forall>a < j + 1. SpeedMs (?ys ! a) \<le> SpeedMs (?ys ! (j + 1))"
    proof (intro allI impI)
      fix a assume a: "a < j + 1"
      show "SpeedMs (?ys ! a) \<le> SpeedMs (?ys ! (j + 1))"
      proof (cases "a = j")
        case True
        then show ?thesis using r by auto
      next
        case False
        then have "a < j" using a by simp
        then have "SpeedMs (models ! a) \<le> SpeedMs (models ! j)" using "1.prems"(5) by simp
        then show ?thesis using r \<open>a < j\<close> by auto
      qed
    qed
    have "settled (n - i - 1) (sort_inner n i (j + 1) ?ys)"
      using "1.IH"[OF True len "1.prems"(2) _ s m] True by simp
    then show ?thesis using True by (subst sort_inner.simps) simp
  qed
qed

lemma sort_outer_settles:
  assumes "n = length xs" "i \<le> n - 1" "settled (n - i) xs"
  shows "settled 1 (sort_outer n i xs)"
  using assms
proof (induction n i xs rule: sort_outer.induct)
  case (1 n i models)
  show ?case
  proof (cases "i < n - 1")
    case True
    have "settled (n - i - 1) (sort_inner n i 0 models)"
      using "1.prems" True by (intro sort_inner_settles) simp_all
    then have "settled (n - (i + 1)) (sort_inner n i 0 models)" by simp
    then have "settled 1 (sort_outer n (i + 1) (sort_inner n i 0 models))"
      using "1.IH"[OF True] "1.prems" True by simp
    then show ?thesis using True by (subst sort_outer.simps) simp
  next
    case False
    then have "settled 1 models"
      using "1.prems" by (auto simp: settled_def)
    then show ?thesis using False by (subst sort_outer.simps) simp
  qed
qed

lemma sortModelsBySpeed_sorted:
  "sorted_wrt (\<lambda>a b. SpeedMs a \<le> SpeedMs b) (sortModelsBySpeed xs)"
proof -
  have "settled 1 (sort_outer (length xs) 0 xs)"
    by (intro sort_outer_settles) (simp_all add: settled_def)
  then show ?thesis
    by (auto simp: sortModelsBySpeed_def settled_def sorted_wrt_iff_nth_less)
qed

lemma sortModelsBySpeed_mset [simp]: "mset (sortModelsBySpeed xs) = mset xs"
  by (simp add: sortModelsBySpeed_def sort_outer_mset)

lemma sortModelsBySpeed_set [simp]: "set (sortModelsBySpeed xs) = set xs"
  using sortModelsBySpeed_mset[of xs] by (metis set_mset_mset)

text \<open>
  Every step of the construction keeps the index at zero and the extractors tracked, and
  both discovery paths end by sorting: the pool that \<open>NewMemoryModelPool\<close> returns is
  well formed, whatever the database and \<open>providers.json\<close> hold.
\<close>

lemma tracked_add_extractor: "tracked p \<Longrightarrow> tracked (add_extractor c p)"
  by (auto simp: tracked_def add_extractor_def)

lemma tracked_add_selector: "tracked p \<Longrightarrow> tracked (add_selector c p)"
  by (auto simp: tracked_def add_selector_def)

lemma tracked_scan_rows:
  "tracked p \<Longrightarrow> tracked (fst (scan_rows rows p candidates))"
proof (induction rows p candidates rule: scan_rows.induct)
  case (3 row rows p candidates)
  then show ?case
    by (simp add: Let_def tracked_add_extractor tracked_add_selector)
qed simp_all

lemma tracked_add_aliases:
  "tracked p \<Longrightarrow> tracked (add_aliases provider aliases p)"
proof (induction provider aliases p rule: add_aliases.induct)
  case (2 provider name modelConfig aliases p)
  then show ?case
    by (simp add: Let_def tracked_add_extractor tracked_add_selector)
qed simp_all

lemma tracked_add_providers:
  "tracked p \<Longrightarrow> tracked (add_providers providers p)"
  by (induction providers p rule: add_providers.induct) (simp_all add: tracked_add_aliases)

lemma tracked_sort_both: "tracked p \<Longrightarrow> tracked (sort_both p)"
  by (simp add: tracked_def sort_both_def)

lemma sorted_sort_both:
  "sorted_wrt (\<lambda>a b. SpeedMs a \<le> SpeedMs b) (extractorModels (sort_both p))"
  by (simp add: sort_both_def sortModelsBySpeed_sorted)

lemma discoverFromDatabase_tracked:
  assumes "tracked p" "sorted_wrt (\<lambda>a b. SpeedMs a \<le> SpeedMs b) (extractorModels p)"
  shows "tracked (fst (discoverFromDatabase db p))"
    and "sorted_wrt (\<lambda>a b. SpeedMs a \<le> SpeedMs b) (extractorModels (fst (discoverFromDatabase db p)))"
proof -
  show "tracked (fst (discoverFromDatabase db p))"
  proof (cases db)
    case (Rows rows)
    obtain p1 candidates where s: "scan_rows rows p [] = (p1, candidates)"
      by (cases "scan_rows rows p []")
    have "tracked p1" using tracked_scan_rows[OF assms(1), of rows "[]"] s by simp
    then show ?thesis by (simp add: discoverFromDatabase_def Rows s tracked_sort_both)
  qed (simp_all add: discoverFromDatabase_def assms(1))
  show "sorted_wrt (\<lambda>a b. SpeedMs a \<le> SpeedMs b) (extractorModels (fst (discoverFromDatabase db p)))"
    using assms(2)
    by (cases db) (simp_all add: discoverFromDatabase_def sorted_sort_both split: prod.splits)
qed

lemma discoverModels_tracked:
  assumes "tracked p" "sorted_wrt (\<lambda>a b. SpeedMs a \<le> SpeedMs b) (extractorModels p)"
  shows "tracked (discoverModels db providersJSON p)"
    and "sorted_wrt (\<lambda>a b. SpeedMs a \<le> SpeedMs b) (extractorModels (discoverModels db providersJSON p))"
proof -
  obtain p1 found where d: "discoverFromDatabase db p = (p1, found)"
    by (cases "discoverFromDatabase db p")
  have t: "tracked p1" and s: "sorted_wrt (\<lambda>a b. SpeedMs a \<le> SpeedMs b) (extractorModels p1)"
    using discoverFromDatabase_tracked[OF assms, of db] d by simp_all
  show "tracked (discoverModels db providersJSON p)"
    using t by (auto simp: discoverModels_def d tracked_sort_both tracked_add_providers
                     split: sum.splits list.splits)
  show "sorted_wrt (\<lambda>a b. SpeedMs a \<le> SpeedMs b) (extractorModels (discoverModels db providersJSON p))"
    using s by (auto simp: discoverModels_def d sorted_sort_both split: sum.splits list.splits)
qed

lemma tracked_pool_ok:
  "tracked p \<Longrightarrow> sorted_wrt (\<lambda>a b. SpeedMs a \<le> SpeedMs b) (extractorModels p) \<Longrightarrow> pool_ok p"
  by (cases "extractorModels p") (auto simp: tracked_def pool_ok_def list_all_iff)

lemma NewMemoryModelPool_ok: "pool_ok (NewMemoryModelPool db providersJSON)"
  unfolding NewMemoryModelPool_def
  by (intro tracked_pool_ok discoverModels_tracked) (simp_all add: tracked_def)


section \<open>The memory model pool: proofs\<close>

declare extractor_loop.simps [simp del]

lemma advanced_fields [simp]:
  "extractorModels (advanced p a) = extractorModels p"
  "healthTracker (advanced p a) = healthTracker p"
  "extractorIndex (advanced p a) = (extractorIndex p + int a) mod int (length (extractorModels p))"
  by (simp_all add: advanced_def)

lemma tracked_candidate:
  assumes "pool_ok p" "extractorModels p \<noteq> []"
  shows "healthTracker p (ModelID (candidate_at p k)) \<noteq> None"
proof -
  have "nat ((extractorIndex p + int k) mod int (length (extractorModels p))) < length (extractorModels p)"
    using assms by (simp add: nat_less_iff)
  then have "candidate_at p k \<in> set (extractorModels p)"
    by (simp add: candidate_at_def)
  with assms show ?thesis by (auto simp: pool_ok_def list_all_iff)
qed

lemma loop_hit:
  assumes "pool_ok p" "extractorModels p \<noteq> []" "a < n" "usable clock p a"
  shows "extractor_loop clock a n (advanced p a)
         = Returns ((ModelID (candidate_at p a), None), selected p a)"
proof -
  let ?n = "int (length (extractorModels p))"
  have pos: "0 < ?n" using assms by simp
  have r: "0 \<le> (extractorIndex p + int a) mod ?n" "(extractorIndex p + int a) mod ?n < ?n"
    using pos by simp_all
  have nxt: "((extractorIndex p + int a) mod ?n + 1) mod ?n = (extractorIndex p + int a + 1) mod ?n"
    by (simp add: mod_add_left_eq)
  obtain h where h: "healthTracker p (ModelID (candidate_at p a)) = Some h"
    using tracked_candidate[OF assms(1,2)] by blast
  from assms(4) h have u: "IsHealthy h \<or> HealthCheckCooldown < clock a - LastFailure h"
    by (simp add: usable_def)
  show ?thesis
    using assms(3) r h u nxt
    by (subst extractor_loop.simps)
       (auto simp: Let_def candidate_at_def[symmetric] selected_def advanced_def)
qed

lemma loop_skip:
  assumes "pool_ok p" "extractorModels p \<noteq> []" "a < n" "\<not> usable clock p a"
  shows "extractor_loop clock a n (advanced p a) = extractor_loop clock (Suc a) n (advanced p (Suc a))"
proof -
  let ?n = "int (length (extractorModels p))"
  have pos: "0 < ?n" using assms by simp
  have r: "0 \<le> (extractorIndex p + int a) mod ?n" "(extractorIndex p + int a) mod ?n < ?n"
    using pos by simp_all
  have nxt: "((extractorIndex p + int a) mod ?n + 1) mod ?n = (extractorIndex p + (1 + int a)) mod ?n"
    by (simp add: mod_simps ac_simps)
  obtain h where h: "healthTracker p (ModelID (candidate_at p a)) = Some h"
    using tracked_candidate[OF assms(1,2)] by blast
  from assms(4) h have u: "\<not> IsHealthy h" "\<not> HealthCheckCooldown < clock a - LastFailure h"
    by (simp_all add: usable_def)
  have adv: "advanced p a\<lparr>extractorIndex := (extractorIndex p + (1 + int a)) mod ?n\<rparr> = advanced p (Suc a)"
    by (simp add: advanced_def add.commute add.left_commute)
  show ?thesis
    using assms(3) r h u nxt adv
    by (subst extractor_loop.simps)
       (auto simp: Let_def candidate_at_def[symmetric])
qed

lemma loop_end:
  assumes "pool_ok p" "extractorModels p \<noteq> []"
  shows "extractor_loop clock (length (extractorModels p)) (length (extractorModels p))
           (advanced p (length (extractorModels p)))
         = Returns ((ModelID (extractorModels p ! 0), None), p)"
proof -
  have eq: "advanced p (length (extractorModels p)) = p"
    using assms by (simp add: advanced_def pool_ok_def)
  show ?thesis
    unfolding eq using assms(2)
    by (subst extractor_loop.simps) (simp split: list.splits)
qed

lemma loop_skips:
  assumes "pool_ok p" "extractorModels p \<noteq> []" "k \<le> n" "\<forall>j<k. \<not> usable clock p j"
  shows "extractor_loop clock 0 n (advanced p 0) = extractor_loop clock k n (advanced p k)"
  using assms(3,4)
proof (induction k)
  case 0
  then show ?case by simp
next
  case (Suc k)
  then have "extractor_loop clock 0 n (advanced p 0) = extractor_loop clock k n (advanced p k)"
    by simp
  also have "\<dots> = extractor_loop clock (Suc k) n (advanced p (Suc k))"
    using Suc.prems by (intro loop_skip[OF assms(1,2)]) auto
  finally show ?case .
qed

lemma advanced_0: "pool_ok p \<Longrightarrow> extractorModels p \<noteq> [] \<Longrightarrow> advanced p 0 = p"
  by (simp add: advanced_def pool_ok_def)

lemma GetNextExtractor_empty:
  "extractorModels p = [] \<Longrightarrow>
     GetNextExtractor clock p = Returns (([], Some (Errorf ''no extractor models available'')), p)"
  by (simp add: GetNextExtractor_def)

lemma GetNextExtractor_first_usable:
  assumes "pool_ok p" "extractorModels p \<noteq> []" "k < length (extractorModels p)"
    "usable clock p k" "\<forall>j<k. \<not> usable clock p j"
  shows "GetNextExtractor clock p = Returns ((ModelID (candidate_at p k), None), selected p k)"
proof -
  have "GetNextExtractor clock p = extractor_loop clock 0 (length (extractorModels p)) (advanced p 0)"
    using assms(1,2) by (simp add: GetNextExtractor_def advanced_0)
  also have "\<dots> = extractor_loop clock k (length (extractorModels p)) (advanced p k)"
    using assms by (intro loop_skips) auto
  also have "\<dots> = Returns ((ModelID (candidate_at p k), None), selected p k)"
    using assms by (intro loop_hit) auto
  finally show ?thesis .
qed

lemma GetNextExtractor_none_usable:
  assumes "pool_ok p" "extractorModels p \<noteq> []" "\<forall>j<length (extractorModels p). \<not> usable clock p j"
  shows "GetNextExtractor clock p = Returns ((ModelID (extractorModels p ! 0), None), p)"
proof -
  have "GetNextExtractor clock p = extractor_loop clock 0 (length (extractorModels p)) (advanced p 0)"
    using assms(1,2) by (simp add: GetNextExtractor_def advanced_0)
  also have "\<dots> = extractor_loop clock (length (extractorModels p)) (length (extractorModels p))
                      (advanced p (length (extractorModels p)))"
    using assms by (intro loop_skips) auto
  also have "\<dots> = Returns ((ModelID (extractorModels p ! 0), None), p)"
    using assms by (intro loop_end) auto
  finally show ?thesis .
qed

lemma extractor_loop_no_error:
  "extractor_loop clock a n p = Returns ((modelID, err), p') \<Longrightarrow> err = None"
proof (induction clock a n p rule: extractor_loop.induct)
  case (1 clock attempts maxAttempts p)
  show ?case
    using "1.prems" "1.IH"
    by (subst (asm) extractor_loop.simps)
       (auto simp: Let_def split: if_splits option.splits list.splits)
qed

lemma selected_record:
  assumes "healthTracker p (ModelID (candidate_at p k)) = Some health"
  shows "healthTracker (selected p k) (ModelID (candidate_at p k))
         = Some (if IsHealthy health then health
                 else health\<lparr>IsHealthy := True, ConsecutiveFails := 0\<rparr>)"
    and "extractorIndex (selected p k)
         = (extractorIndex p + int k + 1) mod int (length (extractorModels p))"
    and "extractorModels (selected p k) = extractorModels p"
    and "m \<noteq> ModelID (candidate_at p k) \<Longrightarrow> healthTracker (selected p k) m = healthTracker p m"
  using assms by (simp_all add: selected_def Let_def)

text \<open>
  The methods keep the pool well formed, and in a well-formed pool the first extractor
  is a fastest one.
\<close>

lemma pool_ok_tracker_update:
  "pool_ok p \<Longrightarrow> pool_ok (p\<lparr>healthTracker := (healthTracker p)(modelID \<mapsto> health)\<rparr>)"
  by (simp add: pool_ok_def list_all_iff)

lemma pool_ok_index_update:
  "pool_ok p \<Longrightarrow> 0 \<le> i \<Longrightarrow> i < int (length (extractorModels p)) \<Longrightarrow>
     pool_ok (p\<lparr>extractorIndex := i\<rparr>)"
  by (simp add: pool_ok_def)

lemma MarkSuccess_ok: "pool_ok p \<Longrightarrow> pool_ok (MarkSuccess now p modelID)"
  by (cases "healthTracker p modelID")
     (simp_all add: MarkSuccess_def Let_def pool_ok_tracker_update)

lemma MarkFailure_ok: "pool_ok p \<Longrightarrow> pool_ok (MarkFailure now p modelID)"
  by (cases "healthTracker p modelID")
     (simp_all add: MarkFailure_def Let_def pool_ok_tracker_update)

lemma selected_ok:
  assumes "pool_ok p" "extractorModels p \<noteq> []"
  shows "pool_ok (selected p k)"
proof -
  let ?i = "(extractorIndex p + int k + 1) mod int (length (extractorModels p))"
  have "0 < int (length (extractorModels p))" using assms(2) by simp
  then have "0 \<le> ?i" "?i < int (length (extractorModels p))"
    by simp_all
  then have p1: "pool_ok (p\<lparr>extractorIndex := ?i\<rparr>)"
    using assms(1) by (intro pool_ok_index_update)
  show ?thesis
  proof (cases "healthTracker p (ModelID (candidate_at p k))")
    case None
    then show ?thesis using p1 by (simp add: selected_def Let_def)
  next
    case (Some health)
    have "pool_ok ((p\<lparr>extractorIndex := ?i\<rparr>)
            \<lparr>healthTracker := (healthTracker (p\<lparr>extractorIndex := ?i\<rparr>))
               (ModelID (candidate_at p k) \<mapsto> health\<lparr>IsHealthy := True, ConsecutiveFails := 0\<rparr>)\<rparr>)"
      using p1 by (rule pool_ok_tracker_update)
    then show ?thesis using p1 Some by (simp add: selected_def Let_def)
  qed
qed

lemma first_usable_exists:
  assumes "\<exists>k < n. usable clock p k"
  shows "\<exists>k < n. usable clock p k \<and> (\<forall>j < k. \<not> usable clock p j)"
proof -
  define k where "k = (LEAST k. k < n \<and> usable clock p k)"
  have k: "k < n \<and> usable clock p k"
  proof -
    from assms have "\<exists>k. k < n \<and> usable clock p k" by blast
    then show ?thesis unfolding k_def by (rule LeastI_ex)
  qed
  have "\<not> usable clock p j" if "j < k" for j
  proof -
    have "\<not> (j < n \<and> usable clock p j)"
      using that unfolding k_def by (rule not_less_Least)
    with that k show ?thesis by simp
  qed
  with k show ?thesis by blast
qed

lemma GetNextExtractor_ok:
  assumes "pool_ok p" "GetNextExtractor clock p = Returns (r, p')"
  shows "pool_ok p'"
proof (cases "extractorModels p = []")
  case True
  with assms(2) have "p' = p" by (simp add: GetNextExtractor_def)
  then show ?thesis using assms(1) by simp
next
  case False
  show ?thesis
  proof (cases "\<exists>k < length (extractorModels p). usable clock p k")
    case True
    then obtain k where "k < length (extractorModels p)" "usable clock p k"
      "\<forall>j < k. \<not> usable clock p j"
      using first_usable_exists by blast
    then have "GetNextExtractor clock p = Returns ((ModelID (candidate_at p k), None), selected p k)"
      using assms(1) False by (intro GetNextExtractor_first_usable)
    with assms(2) have "p' = selected p k" by simp
    then show ?thesis using selected_ok[OF assms(1) False] by simp
  next
    case none: False
    then have "GetNextExtractor clock p = Returns ((ModelID (extractorModels p ! 0), None), p)"
      using assms(1) False by (intro GetNextExtractor_none_usable) auto
    with assms(2) have "p' = p" by simp
    then show ?thesis using assms(1) by simp
  qed
qed

declare selector_loop.simps [simp del]

lemma pool_ok_selectorIndex_update [simp]:
  "pool_ok (p\<lparr>selectorIndex := i\<rparr>) = pool_ok p"
  by (simp add: pool_ok_def)

lemma selector_loop_ok:
  "selector_loop clock a n p = Returns (r, p') \<Longrightarrow> pool_ok p \<Longrightarrow> pool_ok p'"
proof (induction clock a n p rule: selector_loop.induct)
  case (1 clock attempts maxAttempts p)
  let ?p1 = "p\<lparr>selectorIndex := (selectorIndex p + 1) mod int (length (selectorModels p))\<rparr>"
  have ok1: "pool_ok ?p1" using "1.prems"(2) by simp
  have upd: "pool_ok (?p1\<lparr>healthTracker := (healthTracker ?p1)(m \<mapsto> h)\<rparr>)" for m h
    using ok1 by (rule pool_ok_tracker_update)
  show ?case
    using "1.prems" "1.IH" ok1 upd
    by (subst (asm) selector_loop.simps)
       (auto simp: Let_def split: if_splits option.splits list.splits)
qed

lemma GetNextSelector_ok:
  assumes "pool_ok p" "GetNextSelector clock p = Returns (r, p')"
  shows "pool_ok p'"
proof (cases "selectorModels p = []")
  case True
  with assms(2) have "p' = p" by (simp add: GetNextSelector_def)
  then show ?thesis using assms(1) by simp
next
  case False
  with assms(2) have "selector_loop clock 0 (length (selectorModels p)) p = Returns (r, p')"
    by (simp add: GetNextSelector_def)
  then show ?thesis using assms(1) by (rule selector_loop_ok)
qed

lemma fastest_first:
  assumes "pool_ok p" "c \<in> set (extractorModels p)"
  shows "SpeedMs (extractorModels p ! 0) \<le> SpeedMs c"
proof -
  from assms(2) obtain i where i: "i < length (extractorModels p)" "extractorModels p ! i = c"
    by (auto simp: in_set_conv_nth)
  show ?thesis
  proof (cases "i = 0")
    case True
    then show ?thesis using i by simp
  next
    case False
    then have "0 < i" by simp
    moreover have "sorted_wrt (\<lambda>a b. SpeedMs a \<le> SpeedMs b) (extractorModels p)"
      using assms(1) by (simp add: pool_ok_def)
    ultimately have "SpeedMs (extractorModels p ! 0) \<le> SpeedMs (extractorModels p ! i)"
      using i(1) sorted_wrt_nth_less[of "\<lambda>a b. SpeedMs a \<le> SpeedMs b" "extractorModels p" 0 i]
      by simp
    then show ?thesis using i(2) by simp
  qed
qed

text \<open>
  Claim C7. On a pool without extractors \<open>GetNextExtractor\<close> returns the error
  "no extractor models available", and that is the only way it returns an error. On a
  pool with at least one extractor, as the program builds it (\<open>pool_ok\<close>), it returns
  the id of one of the extractors and no error: the first candidate in round-robin
  order, counted from the current index, that is healthy or whose cooldown has elapsed
  at the moment it is examined, leaving the index just behind that candidate and, when
  the candidate was unhealthy, its record healthy with zero consecutive failures
  (\<open>selected\<close>); and when no candidate is usable, the first model of the list, which is
  a fastest one, with the pool as it was before the call. \<open>NewMemoryModelPool\<close> returns
  a pool that is \<open>pool_ok\<close>, and \<open>GetNextExtractor\<close>, \<open>GetNextSelector\<close>, \<open>MarkSuccess\<close>
  and \<open>MarkFailure\<close> keep it so; on a pool that is not, the Go code can panic.
\<close>

theorem GetNextExtractor_selection:
  "(extractorModels p = [] \<longrightarrow>
      GetNextExtractor clock p = Returns (([], Some (Errorf ''no extractor models available'')), p))
   \<and> ((\<exists>modelID e p'. GetNextExtractor clock p = Returns ((modelID, Some e), p'))
        \<longrightarrow> extractorModels p = [])
   \<and> (pool_ok p \<and> extractorModels p \<noteq> [] \<longrightarrow>
        (\<exists>c \<in> set (extractorModels p). \<exists>p'.
            GetNextExtractor clock p = Returns ((ModelID c, None), p'))
        \<and> (\<forall>k < length (extractorModels p).
              usable clock p k \<and> (\<forall>j<k. \<not> usable clock p j) \<longrightarrow>
              GetNextExtractor clock p = Returns ((ModelID (candidate_at p k), None), selected p k))
        \<and> ((\<forall>k < length (extractorModels p). \<not> usable clock p k) \<longrightarrow>
              GetNextExtractor clock p = Returns ((ModelID (extractorModels p ! 0), None), p)
              \<and> (\<forall>c \<in> set (extractorModels p).
                    SpeedMs (extractorModels p ! 0) \<le> SpeedMs c)))"
proof (intro conjI impI)
  show "GetNextExtractor clock p = Returns (([], Some (Errorf ''no extractor models available'')), p)"
    if "extractorModels p = []"
    using that by (rule GetNextExtractor_empty)
next
  assume "\<exists>modelID e p'. GetNextExtractor clock p = Returns ((modelID, Some e), p')"
  then obtain modelID e p' where r: "GetNextExtractor clock p = Returns ((modelID, Some e), p')"
    by blast
  show "extractorModels p = []"
  proof (rule ccontr)
    assume "extractorModels p \<noteq> []"
    with r have "extractor_loop clock 0 (length (extractorModels p)) p = Returns ((modelID, Some e), p')"
      by (simp add: GetNextExtractor_def)
    then show False using extractor_loop_no_error by fastforce
  qed
next
  assume a: "pool_ok p \<and> extractorModels p \<noteq> []"
  show "\<forall>k < length (extractorModels p).
          usable clock p k \<and> (\<forall>j<k. \<not> usable clock p j) \<longrightarrow>
          GetNextExtractor clock p = Returns ((ModelID (candidate_at p k), None), selected p k)"
    using a GetNextExtractor_first_usable by blast
  show none: "(\<forall>k < length (extractorModels p). \<not> usable clock p k) \<Longrightarrow>
        GetNextExtractor clock p = Returns ((ModelID (extractorModels p ! 0), None), p)"
    using a GetNextExtractor_none_usable by blast
  show "\<forall>c \<in> set (extractorModels p). SpeedMs (extractorModels p ! 0) \<le> SpeedMs c"
    using a fastest_first by blast
  show "\<exists>c \<in> set (extractorModels p). \<exists>p'.
            GetNextExtractor clock p = Returns ((ModelID c, None), p')"
  proof (cases "\<exists>k < length (extractorModels p). usable clock p k")
    case True
    define k where "k = (LEAST k. k < length (extractorModels p) \<and> usable clock p k)"
    have k: "k < length (extractorModels p) \<and> usable clock p k"
      unfolding k_def using True by (rule LeastI_ex)
    have "\<forall>j<k. \<not> usable clock p j"
    proof (intro allI impI)
      fix j assume "j < k"
      then have "\<not> (j < length (extractorModels p) \<and> usable clock p j)"
        unfolding k_def by (rule not_less_Least)
      with \<open>j < k\<close> k show "\<not> usable clock p j" by simp
    qed
    with a k have "GetNextExtractor clock p = Returns ((ModelID (candidate_at p k), None), selected p k)"
      using GetNextExtractor_first_usable by blast
    moreover have "candidate_at p k \<in> set (extractorModels p)"
      using a by (simp add: candidate_at_def nat_less_iff)
    ultimately show ?thesis by blast
  next
    case False
    then have "GetNextExtractor clock p = Returns ((ModelID (extractorModels p ! 0), None), p)"
      using none by blast
    moreover have "extractorModels p ! 0 \<in> set (extractorModels p)"
      using a by simp
    ultimately show ?thesis by blast
  qed
qed

theorem GetNextExtractor_selection_witness:
  "pool_ok two_model_pool \<and> extractorModels two_model_pool \<noteq> []
   \<and> \<not> usable at_second_1100 two_model_pool 0 \<and> usable at_second_1100 two_model_pool 1
   \<and> GetNextExtractor at_second_1100 two_model_pool
       = Returns ((''slow'', None),
           two_model_pool\<lparr>healthTracker := (healthTracker two_model_pool)(''slow'' \<mapsto>
              healthy_record\<lparr>FailureCount := 4, LastFailure := 500000000000\<rparr>)\<rparr>)"
proof -
  have ok: "pool_ok two_model_pool" "extractorModels two_model_pool \<noteq> []"
    by (simp_all add: pool_ok_def two_model_pool_def)
  have c0: "candidate_at two_model_pool 0 = extractorModels two_model_pool ! 0"
    and c1: "candidate_at two_model_pool 1 = extractorModels two_model_pool ! 1"
    by (simp_all add: candidate_at_def two_model_pool_def)
  have u0: "\<not> usable at_second_1100 two_model_pool 0"
    unfolding usable_def c0
    by (simp add: two_model_pool_def healthy_record_def at_second_1100_def HealthCheckCooldown_def)
  have u1: "usable at_second_1100 two_model_pool 1"
    unfolding usable_def c1
    by (simp add: two_model_pool_def healthy_record_def at_second_1100_def HealthCheckCooldown_def)
  have "\<forall>j<1::nat. \<not> usable at_second_1100 two_model_pool j"
    using u0 by simp
  with GetNextExtractor_selection[of two_model_pool at_second_1100] ok u1
  have "GetNextExtractor at_second_1100 two_model_pool
        = Returns ((ModelID (candidate_at two_model_pool 1), None), selected two_model_pool 1)"
    by (simp add: two_model_pool_def)
  moreover have "ModelID (candidate_at two_model_pool 1) = ''slow''"
    unfolding c1 by (simp add: two_model_pool_def)
  moreover have "selected two_model_pool 1
      = two_model_pool\<lparr>healthTracker := (healthTracker two_model_pool)(''slow'' \<mapsto>
              healthy_record\<lparr>FailureCount := 4, LastFailure := 500000000000\<rparr>)\<rparr>"
    unfolding selected_def c1
    by (simp add: two_model_pool_def healthy_record_def Let_def)
  ultimately show ?thesis using ok u0 u1 by simp
qed


text \<open>
  Claim C10. \<open>MarkSuccess\<close> and \<open>MarkFailure\<close> with a model id that has no health record
  return the pool they were given: no record is added and no field of any record, nor
  any other part of the pool, is changed.
\<close>

theorem Mark_untracked_unchanged:
  "healthTracker p modelID = None \<Longrightarrow>
     MarkSuccess now p modelID = p \<and> MarkFailure now p modelID = p"
  by (simp add: MarkSuccess_def MarkFailure_def)

theorem Mark_untracked_unchanged_witness:
  "healthTracker two_model_pool ''unknown'' = None
   \<and> MarkSuccess 1100000000000 two_model_pool ''unknown'' = two_model_pool
   \<and> MarkFailure 1100000000000 two_model_pool ''unknown'' = two_model_pool"
proof -
  have h: "healthTracker two_model_pool ''unknown'' = None"
    by (simp add: two_model_pool_def)
  show ?thesis
    using h Mark_untracked_unchanged [OF h, of 1100000000000] by simp
qed

text \<open>
  For contrast, with a tracked model both methods do change the pool: a third
  consecutive failure marks the model unhealthy.
\<close>

lemma MarkFailure_tracked:
  "healthTracker p modelID = Some health \<Longrightarrow>
     healthTracker (MarkFailure now p modelID) modelID
     = Some (health\<lparr>FailureCount := FailureCount health + 1,
                     ConsecutiveFails := ConsecutiveFails health + 1,
                     LastFailure := now,
                     IsHealthy := IsHealthy health \<and> ConsecutiveFails health + 1 < 3\<rparr>)"
  by (simp add: MarkFailure_def Let_def MaxConsecutiveFailures_def)

lemma MarkSuccess_tracked:
  "healthTracker p modelID = Some health \<Longrightarrow>
     healthTracker (MarkSuccess now p modelID) modelID
     = Some (health\<lparr>SuccessCount := SuccessCount health + 1,
                     LastSuccess := now,
                     ConsecutiveFails := 0,
                     IsHealthy := IsHealthy health \<or> 2 \<le> SuccessCount health + 1\<rparr>)"
  by (simp add: MarkSuccess_def Let_def MinSuccessesToRecover_def)

section \<open>The workflow handler: proofs\<close>

lemma written_append [simp]: "written (xs @ ys) = written xs @ written ys"
  by (induction xs rule: written.induct) simp_all

lemma written_Logs [simp]: "written (map Log ls) = []"
  by (induction ls) simp_all



lemma create_execution_limiter [simp]:
  "create_execution (h\<lparr>executionLimiter := l\<rparr>) w userID msg workflow
   = create_execution h w userID msg workflow"
  by (simp add: create_execution_def)

lemma execute_and_report_limiter [simp]:
  "execute_and_report (h\<lparr>executionLimiter := l\<rparr>) w userID msg agent workflow execID oid
   = execute_and_report h w userID msg agent workflow execID oid"
  by (simp add: execute_and_report_def Let_def split: prod.splits sum.splits)



lemma check_daily_limit_none [simp]:
  "check_daily_limit (h\<lparr>executionLimiter := None\<rparr>) w userID = (False, [])"
  by (simp add: check_daily_limit_def)



lemma quiet_simps [simp]:
  "quiet []"
  "quiet (e # es) = (\<not> is_engine_call e \<and> \<not> is_close e \<and> quiet es)"
  "quiet (xs @ ys) = (quiet xs \<and> quiet ys)"
  by (simp_all add: quiet_def)

lemma quiet_Logs [simp]: "quiet (map Log ls)"
  by (induction ls) simp_all

lemma quiet_check: "quiet (snd (check_daily_limit h w userID))"
  by (simp add: check_daily_limit_def split: option.splits prod.splits)

lemma quiet_create:
  "create_execution h w userID msg workflow = Inl evs \<Longrightarrow> quiet evs"
  "create_execution h w userID msg workflow = Inr (execID, oid, evs) \<Longrightarrow> quiet evs"
  by (auto simp: create_execution_def Let_def split: option.splits sum.splits)


lemma quiet_increment:
  "increment_counter h w userID = (l, evs) \<Longrightarrow> quiet evs"
  by (auto simp: increment_counter_def split: option.splits prod.splits)

lemma execute_and_report_shape:
  "\<exists>forwarded line options post.
     execute_and_report h w userID msg agent workflow execID oid
       = [MakeStatusChan, GoForward forwarded, Log line, Log ''[WORKFLOW-WS] Executing with input: %+v'',
          CallExecuteWithOptions workflow
            (inject_user_id (WorkflowClientMessage.Input msg) userID) options,
          CloseStatusChan] @ post
     \<and> quiet post"
  by (auto simp: execute_and_report_def Let_def split: prod.splits sum.splits)

lemma rejected_trace:
  assumes "\<not> accepted h w userID msg"
  shows "quiet (fst (handleExecuteWorkflow h w userID msg))"
proof -
  obtain stop evs where s: "check_daily_limit h w userID = (stop, evs)"
    by (cases "check_daily_limit h w userID")
  have q: "quiet evs" using quiet_check[of h w userID] s by simp
  show ?thesis
    using assms q
    by (auto simp: handleExecuteWorkflow_def accepted_def s Let_def
             split: sum.splits option.splits prod.splits dest: quiet_create)
qed

lemma accepted_trace:
  assumes "accepted h w userID msg"
  shows "\<exists>pre post workflow options.
           fst (handleExecuteWorkflow h w userID msg)
             = pre @ [CallExecuteWithOptions workflow
                        (inject_user_id (WorkflowClientMessage.Input msg) userID) options,
                      CloseStatusChan] @ post
           \<and> quiet pre \<and> quiet post"
proof -
  obtain stop evs where s: "check_daily_limit h w userID = (stop, evs)"
    by (cases "check_daily_limit h w userID")
  have q: "quiet evs" using quiet_check[of h w userID] s by simp
  from assms s have ns: "\<not> stop" by (simp add: accepted_def)
  from assms obtain agent workflow where
    a0: "GetAgent (agentService h) (WorkflowClientMessage.AgentID msg) userID = Inr agent"
        "Workflow agent = Some workflow"
        "\<not> isl (create_execution h w userID msg workflow)"
    by (auto simp: accepted_def split: sum.splits option.splits)
  from a0(3) obtain execID oid cevs where
    a1: "create_execution h w userID msg workflow = Inr (execID, oid, cevs)"
    by (cases "create_execution h w userID msg workflow") auto
  note a = a0(1,2) a1
  obtain l ievs where i: "increment_counter h w userID = (l, ievs)"
    by (cases "increment_counter h w userID")
  obtain forwarded line options post where
    e: "execute_and_report h w userID msg agent workflow execID oid
       = [MakeStatusChan, GoForward forwarded, Log line, Log ''[WORKFLOW-WS] Executing with input: %+v'',
          CallExecuteWithOptions workflow
            (inject_user_id (WorkflowClientMessage.Input msg) userID) options,
          CloseStatusChan] @ post" and qp: "quiet post"
    using execute_and_report_shape by blast
  let ?pre = "[Log ''[WORKFLOW-WS] Received execute request: AgentID=%s, Input=%+v''] @ evs @ cevs @
              [Log ''[WORKFLOW-WS] Starting execution %s for agent %s'',
               WriteJSON (zero_message\<lparr>WorkflowServerMessage.Type := ''execution_started'',
                                        WorkflowServerMessage.ExecutionID := execID\<rparr>)] @ ievs @
              [MakeStatusChan, GoForward forwarded, Log line,
               Log ''[WORKFLOW-WS] Executing with input: %+v'']"
  have "fst (handleExecuteWorkflow h w userID msg)
        = ?pre @ [CallExecuteWithOptions workflow
                    (inject_user_id (WorkflowClientMessage.Input msg) userID) options,
                  CloseStatusChan] @ post"
    by (simp add: handleExecuteWorkflow_def s ns a i e Let_def)
  moreover have "quiet ?pre"
    using q quiet_create(2)[OF a(3)] quiet_increment[OF i] by simp
  ultimately show ?thesis using qp by blast
qed



lemma accepted_iff_engine_call:
  "accepted h w userID msg = (\<exists>e \<in> set (fst (handleExecuteWorkflow h w userID msg)). is_engine_call e)"
proof
  assume "accepted h w userID msg"
  then show "\<exists>e \<in> set (fst (handleExecuteWorkflow h w userID msg)). is_engine_call e"
    using accepted_trace[of h w userID msg] by fastforce
next
  assume c: "\<exists>e \<in> set (fst (handleExecuteWorkflow h w userID msg)). is_engine_call e"
  show "accepted h w userID msg"
  proof (rule ccontr)
    assume "\<not> accepted h w userID msg"
    then have "quiet (fst (handleExecuteWorkflow h w userID msg))" by (rule rejected_trace)
    with c show False by (auto simp: quiet_def list_all_iff)
  qed
qed





lemma unique_split:
  assumes "xs @ x # ys = xs' @ x' # ys'" "P x'" "\<forall>a \<in> set xs. \<not> P a" "\<forall>a \<in> set ys. \<not> P a" "P x"
  shows "xs = xs' \<and> x = x' \<and> ys = ys'"
  using assms
proof (induction xs arbitrary: xs')
  case Nil
  then show ?case by (cases xs') auto
next
  case (Cons a xs)
  then show ?case by (cases xs') auto
qed

text \<open>
  Claim C2. Whenever the handler calls \<open>ExecuteWithOptions\<close>, its very next action is
  the close of the status channel, whatever the engine returned, a result or an error:
  nothing before the call and nothing after that close touches the channel again. So a
  run that reaches the engine closes the channel exactly once, a run that does not reach
  the engine never does, and the engine is called at most once. The goroutine that
  ranges over the channel ends with that close. The engine is a parameter of the
  handler here; the statement is about what the handler does with the channel.
\<close>

theorem statusChan_closed_once:
  fixes h :: WorkflowWebSocketHandler and w :: Readings and userID :: string
    and msg :: WorkflowClientMessage
  defines "tr \<equiv> fst (handleExecuteWorkflow h w userID msg)"
  shows
  "(\<forall>pre workflow input options post.
      tr = pre @ CallExecuteWithOptions workflow input options # post \<longrightarrow>
      (\<exists>post'. post = CloseStatusChan # post' \<and> quiet pre \<and> quiet post'))
   \<and> ((\<exists>e \<in> set tr. is_engine_call e) \<longrightarrow> length (filter is_close tr) = 1)
   \<and> (\<not> (\<exists>e \<in> set tr. is_engine_call e) \<longrightarrow> length (filter is_close tr) = 0)
   \<and> length (filter is_engine_call tr) \<le> 1"
proof -
  have nf: "filter is_close es = [] \<and> filter is_engine_call es = []" if "quiet es" for es
    using that by (induction es) simp_all
  show ?thesis
  proof (cases "accepted h w userID msg")
    case False
    then have q: "quiet tr" unfolding tr_def by (rule rejected_trace)
    then have none: "\<not> (\<exists>e \<in> set tr. is_engine_call e)"
      by (auto simp: quiet_def list_all_iff)
    have "\<not> tr = pre @ CallExecuteWithOptions workflow input options # post"
      for pre workflow input options post
      using none by auto
    then show ?thesis using none nf[OF q] by simp
  next
    case True
    then obtain pre0 post0 workflow0 options0 where
      sh: "tr = pre0 @ [CallExecuteWithOptions workflow0
                          (inject_user_id (WorkflowClientMessage.Input msg) userID) options0,
                        CloseStatusChan] @ post0"
      and q: "quiet pre0" "quiet post0"
      unfolding tr_def using accepted_trace[of h w userID msg] by blast
    have call: "\<exists>e \<in> set tr. is_engine_call e" by (auto simp: sh)
    have cnt: "length (filter is_close tr) = 1" "length (filter is_engine_call tr) = 1"
      using nf[OF q(1)] nf[OF q(2)] by (simp_all add: sh)
    have adj: "\<exists>post'. post = CloseStatusChan # post' \<and> quiet pre \<and> quiet post'"
      if eq: "tr = pre @ CallExecuteWithOptions workflow input options # post"
      for pre workflow input options post
    proof -
      have "pre0 @ CallExecuteWithOptions workflow0
                     (inject_user_id (WorkflowClientMessage.Input msg) userID) options0
                   # (CloseStatusChan # post0)
            = pre @ CallExecuteWithOptions workflow input options # post"
        using sh eq by simp
      moreover have "\<forall>a \<in> set pre0. \<not> is_engine_call a"
        "\<forall>a \<in> set (CloseStatusChan # post0). \<not> is_engine_call a"
        using q by (auto simp: quiet_def list_all_iff)
      ultimately have "pre0 = pre \<and> CloseStatusChan # post0 = post"
        using unique_split[where P = is_engine_call and xs = pre0 and xs' = pre
                             and ys = "CloseStatusChan # post0" and ys' = post]
        by simp
      then show ?thesis using q by auto
    qed
    show ?thesis using call cnt adj by simp
  qed
qed

theorem statusChan_closed_once_witness:
  "(\<exists>e \<in> set (fst (handleExecuteWorkflow (plain_handler agents_found engine_failing)
                        readings ''user-1'' request)). is_engine_call e)
   \<and> length (filter is_close (fst (handleExecuteWorkflow (plain_handler agents_found engine_failing)
                                      readings ''user-1'' request))) = 1
   \<and> (\<exists>e \<in> set (fst (handleExecuteWorkflow (plain_handler agents_found engine_completing)
                        readings ''user-1'' request)). is_engine_call e)
   \<and> (\<exists>pre workflow input options post.
         fst (handleExecuteWorkflow (plain_handler agents_found engine_completing)
                readings ''user-1'' request)
           = pre @ CallExecuteWithOptions workflow input options # CloseStatusChan # post
         \<and> quiet pre \<and> quiet post)
   \<and> \<not> (\<exists>e \<in> set (fst (handleExecuteWorkflow (plain_handler agents_missing engine_completing)
                        readings ''user-1'' request)). is_engine_call e)
   \<and> length (filter is_close (fst (handleExecuteWorkflow (plain_handler agents_missing engine_completing)
                                      readings ''user-1'' request))) = 0"
proof -
  let ?f = "fst (handleExecuteWorkflow (plain_handler agents_found engine_failing)
                   readings ''user-1'' request)"
  let ?c = "fst (handleExecuteWorkflow (plain_handler agents_found engine_completing)
                   readings ''user-1'' request)"
  let ?m = "fst (handleExecuteWorkflow (plain_handler agents_missing engine_completing)
                   readings ''user-1'' request)"
  have af: "accepted (plain_handler agents_found engine_failing) readings ''user-1'' request"
    and ac: "accepted (plain_handler agents_found engine_completing) readings ''user-1'' request"
    by (simp_all add: accepted_def check_daily_limit_def plain_handler_def agents_found_def
                      summary_agent_def create_execution_def)
  have am: "\<not> accepted (plain_handler agents_missing engine_completing) readings ''user-1'' request"
    by (simp add: accepted_def check_daily_limit_def plain_handler_def agents_missing_def)
  have ef: "\<exists>e \<in> set ?f. is_engine_call e" using af by (simp add: accepted_iff_engine_call)
  have ec: "\<exists>e \<in> set ?c. is_engine_call e" using ac by (simp add: accepted_iff_engine_call)
  have em: "\<not> (\<exists>e \<in> set ?m. is_engine_call e)" using am by (simp add: accepted_iff_engine_call)
  note tf = statusChan_closed_once
              [of "plain_handler agents_found engine_failing" readings "''user-1''" request]
  note tc = statusChan_closed_once
              [of "plain_handler agents_found engine_completing" readings "''user-1''" request]
  note tm = statusChan_closed_once
              [of "plain_handler agents_missing engine_completing" readings "''user-1''" request]
  have 1: "length (filter is_close ?f) = 1" using tf ef by blast
  have 3: "length (filter is_close ?m) = 0" using tm em by blast
  from ec obtain e where e: "e \<in> set ?c" "is_engine_call e" by blast
  obtain workflow input options where c: "e = CallExecuteWithOptions workflow input options"
    using e(2) by (cases e) simp_all
  from e(1) obtain pre post where sp: "?c = pre @ e # post"
    by (meson split_list)
  with tc c have "\<exists>post'. post = CloseStatusChan # post' \<and> quiet pre \<and> quiet post'"
    by blast
  with sp c have 2: "\<exists>pre workflow input options post.
         ?c = pre @ CallExecuteWithOptions workflow input options # CloseStatusChan # post
         \<and> quiet pre \<and> quiet post"
    by blast
  show ?thesis using ef 1 ec 2 em 3 by blast
qed







text \<open>
  Towards claim C3: what the handler passes to the engine. The input of the engine call
  is the client's input map, or a new map when the message carried none, with the
  authenticated user's id under \<open>__user_id__\<close>; every other key is as the client sent
  it. What the engine and the executors do with that entry is beyond the handler.
\<close>

lemma engine_receives_user_id:
  assumes "fst (handleExecuteWorkflow h w userID msg)
           = pre @ CallExecuteWithOptions workflow input options # post"
  shows "input = inject_user_id (WorkflowClientMessage.Input msg) userID"
    and "input ''__user_id__'' = Some (AnyString userID)"
    and "k \<noteq> ''__user_id__'' \<Longrightarrow>
           input k = (case WorkflowClientMessage.Input msg of None \<Rightarrow> None | Some m \<Rightarrow> m k)"
proof -
  have "\<exists>e \<in> set (fst (handleExecuteWorkflow h w userID msg)). is_engine_call e"
    using assms by auto
  then have "accepted h w userID msg" by (simp add: accepted_iff_engine_call)
  then obtain pre0 post0 workflow0 options0 where
    sh: "fst (handleExecuteWorkflow h w userID msg)
         = pre0 @ [CallExecuteWithOptions workflow0
                     (inject_user_id (WorkflowClientMessage.Input msg) userID) options0,
                   CloseStatusChan] @ post0"
    and q: "quiet pre0" "quiet post0"
    using accepted_trace[of h w userID msg] by blast
  have "pre0 @ CallExecuteWithOptions workflow0
                 (inject_user_id (WorkflowClientMessage.Input msg) userID) options0
               # (CloseStatusChan # post0)
        = pre @ CallExecuteWithOptions workflow input options # post"
    using sh assms by simp
  moreover have "\<forall>a \<in> set pre0. \<not> is_engine_call a"
    "\<forall>a \<in> set (CloseStatusChan # post0). \<not> is_engine_call a"
    using q by (auto simp: quiet_def list_all_iff)
  ultimately have "CallExecuteWithOptions workflow0
                 (inject_user_id (WorkflowClientMessage.Input msg) userID) options0
                 = CallExecuteWithOptions workflow input options"
    using unique_split[where P = is_engine_call and xs = pre0 and xs' = pre
                         and ys = "CloseStatusChan # post0" and ys' = post
                         and x = "CallExecuteWithOptions workflow0
                                    (inject_user_id (WorkflowClientMessage.Input msg) userID) options0"
                         and x' = "CallExecuteWithOptions workflow input options"]
    by simp
  then show i: "input = inject_user_id (WorkflowClientMessage.Input msg) userID" by simp
  show "input ''__user_id__'' = Some (AnyString userID)"
    unfolding i by (simp add: inject_user_id_def)
  show "input k = (case WorkflowClientMessage.Input msg of None \<Rightarrow> None | Some m \<Rightarrow> m k)"
    if "k \<noteq> ''__user_id__''"
    unfolding i using that by (simp add: inject_user_id_def split: option.splits)
qed


end
